theory Spec2Isabelle
  imports Complex_Main
begin

section \<open>The optimal statistic of \<open>enterprise_extensions\<close>\<close>

text \<open>
  This theory embeds \<open>frequentist/optimal_statistic.py\<close> (class \<open>OptimalStatistic\<close>).

  Conventions of the embedding.
  \<^item> A Python exception is a value \<open>Inl e\<close> of \<open>error + 'a\<close>; a method that also changes
    state has type \<open>'s \<Rightarrow> (error + 'a) \<times> 's\<close>, so that the effects made before a raise
    (warnings, cache entries, consumed random numbers) are kept, as in Python.
  \<^item> \<open>float64\<close> values are modelled as \<open>real\<close>, without rounding. NumPy's \<open>nan\<close> and
    \<open>inf\<close> (a division by zero, the square root of a negative number) have no
    counterpart in \<open>real\<close>: a statement that simplifies a quotient carries the
    hypothesis that its denominator is not zero, and a statement that only says which
    expression is evaluated holds as it is.
  \<^item> NumPy arrays of the noise model (vectors and matrices) are values of an opaque type
    \<open>'arr\<close>. The functions of \<open>numpy\<close>, \<open>scipy.linalg\<close>, \<open>enterprise.signals.utils\<close> and
    of the \<open>enterprise\<close> model objects are not part of this repository: they are fields
    of the records \<open>lib\<close>, \<open>signalcollection\<close> and \<open>pta\<close>, and every theorem holds for
    whatever these functions return or raise.
  \<^item> The global random generator of NumPy is a state component of type \<open>'g\<close>.
\<close>

subsection \<open>Errors, dictionaries and sequencing\<close>

datatype error = LinAlgError | ValueError | IndexError | KeyError | TypeError | OtherError string

text \<open>A parameter dictionary: parameter name to value.\<close>

type_synonym pdict = "string \<rightharpoonup> real"

text \<open>Sequencing of calls that may raise.\<close>

definition ethen :: "error + 'a \<Rightarrow> ('a \<Rightarrow> error + 'b) \<Rightarrow> error + 'b" where
  "ethen r f = (case r of Inl e \<Rightarrow> Inl e | Inr a \<Rightarrow> f a)"

definition andthen ::
  "('s \<Rightarrow> (error + 'a) \<times> 's) \<Rightarrow> ('a \<Rightarrow> 's \<Rightarrow> (error + 'b) \<times> 's) \<Rightarrow> 's \<Rightarrow> (error + 'b) \<times> 's" where
  "andthen m f s = (case m s of (Inl e, s') \<Rightarrow> (Inl e, s') | (Inr a, s') \<Rightarrow> f a s')"

definition call :: "error + 'a \<Rightarrow> 's \<Rightarrow> (error + 'a) \<times> 's" where
  "call r s = (r, s)"

text \<open>\<open>xs[i]\<close> for a non-negative index: out of range raises \<open>IndexError\<close>.\<close>

definition nth_py :: "'a list \<Rightarrow> nat \<Rightarrow> error + 'a" where
  "nth_py xs i = (if i < length xs then Inr (xs ! i) else Inl IndexError)"

text \<open>\<open>dict(zip(names, values))\<close>: pairs up to the shorter list, a later pair overrides
  an earlier one with the same name.\<close>

definition dict_zip :: "string list \<Rightarrow> real list \<Rightarrow> pdict" where
  "dict_zip names vals = fold (\<lambda>(k, v) d. d(k \<mapsto> v)) (zip names vals) Map.empty"

subsection \<open>The external libraries and the noise model\<close>

text \<open>
  \<open>np_dot1\<close> is \<open>np.dot\<close> on two one-dimensional arrays (a scalar), \<open>np_dot\<close> is
  \<open>np.dot\<close> with an array result; \<open>np_row a\<close> is \<open>a[None,:]\<close>, \<open>np_T a\<close> is \<open>a.T\<close>.
  \<open>cho_factor\<close>, \<open>cho_solve\<close> are those of \<open>scipy.linalg\<close>, \<open>np_solve\<close> is
  \<open>np.linalg.solve\<close>. \<open>powerlaw f log10_A gamma\<close> is \<open>utils.powerlaw\<close>; its \<open>gamma\<close>
  is optional because the source may pass \<open>None\<close>. \<open>np_randint high\<close> is
  \<open>np.random.randint(0, high)\<close>.
\<close>

record ('arr, 'g) lib =
  ndim :: "'arr \<Rightarrow> nat"
  np_diag :: "'arr \<Rightarrow> error + 'arr"
  np_add :: "'arr \<Rightarrow> 'arr \<Rightarrow> error + 'arr"
  np_sub :: "'arr \<Rightarrow> 'arr \<Rightarrow> error + 'arr"
  np_mul :: "'arr \<Rightarrow> 'arr \<Rightarrow> error + 'arr"
  np_dot :: "'arr \<Rightarrow> 'arr \<Rightarrow> error + 'arr"
  np_dot1 :: "'arr \<Rightarrow> 'arr \<Rightarrow> error + real"
  np_trace :: "'arr \<Rightarrow> error + real"
  np_T :: "'arr \<Rightarrow> 'arr"
  np_row :: "'arr \<Rightarrow> error + 'arr"
  cho_factor :: "'arr \<Rightarrow> error + ('arr \<times> bool)"
  cho_solve :: "('arr \<times> bool) \<Rightarrow> 'arr \<Rightarrow> error + 'arr"
  np_solve :: "'arr \<Rightarrow> 'arr \<Rightarrow> error + 'arr"
  powerlaw :: "'arr \<Rightarrow> real \<Rightarrow> real option \<Rightarrow> error + 'arr"
  np_randint :: "nat \<Rightarrow> 'g \<Rightarrow> (error + nat) \<times> 'g"

text \<open>
  A signal collection of the model (one per pulsar). \<open>get_ndiag params\<close> returns the
  white-noise covariance object \<open>N\<close>, of which the source only calls
  \<open>N.solve(other, left_array=F)\<close>: the object is modelled as that method, taking
  \<open>other\<close> and then \<open>F\<close>.
\<close>

record 'arr signalcollection =
  sc_white_params :: "string list"
  sc_basis_params :: "string list"
  sc_delay_params :: "string list"
  get_ndiag :: "pdict \<Rightarrow> error + ('arr \<Rightarrow> 'arr \<Rightarrow> error + 'arr)"
  get_detres :: "pdict \<Rightarrow> error + 'arr"
  get_basis :: "pdict \<Rightarrow> error + 'arr"

text \<open>The \<open>enterprise\<close> PTA object \<open>self.pta\<close>. An entry of \<open>params\<close> is a parameter
  object, of which the source only calls \<open>sample()\<close>.\<close>

record ('arr, 'g) pta =
  param_names :: "string list"
  params :: "('g \<Rightarrow> real \<times> 'g) list"
  signalcollections :: "'arr signalcollection list"
  pta_get_TNr :: "pdict \<Rightarrow> error + 'arr list"
  pta_get_TNT :: "pdict \<Rightarrow> error + 'arr list"
  get_phiinv :: "pdict \<Rightarrow> error + 'arr list"
  map_params :: "real list \<Rightarrow> error + pdict"

text \<open>The attributes of an \<open>OptimalStatistic\<close> object that \<open>__init__\<close> sets and never
  changes afterwards.\<close>

record ('arr, 'g) optimal_statistic =
  pta :: "('arr, 'g) pta"
  gamma_common :: "real option"
  freqs :: "'arr"
  Fmats :: "'arr list"
  white_params :: "string list"
  basis_params :: "string list"
  delay_params :: "string list"
  psrlocs :: "'arr list"
  orf :: "'arr \<Rightarrow> 'arr \<Rightarrow> error + real"

text \<open>A cache of one decorated method: the key is the tuple of the values of the
  relevant parameters.\<close>

type_synonym 'r cache = "(real option list \<times> 'r) list"

text \<open>
  The mutable state: the random generator, the calls of \<open>warnings.warn\<close> so far (the
  message of each call, in order; which of them the warning filter displays is outside
  the model), the values printed so far, and the caches of the three decorated methods.
\<close>

record ('arr, 'g) os_state =
  rng :: "'g"
  warnings :: "string list"
  stdout :: "real list"
  cache_FNr :: "'arr list cache"
  cache_FNF :: "'arr list cache"
  cache_FNT :: "'arr list cache"

subsection \<open>The matrix-product cache\<close>

text \<open>
  Modelled from the spec: the decorator \<open>signal_base.cache_call\<close> of \<open>enterprise\<close>,
  which is not among the sources. Spec 4.2 and 9: a product is computed once per
  distinct combination of the values of the relevant parameters and reused on later
  calls with the same values; the cache is keyed by the tuple of only the relevant
  parameter values and is not evicted during a run. A body that raises stores nothing.
\<close>

definition cache_call ::
  "string list \<Rightarrow> (pdict \<Rightarrow> error + 'r) \<Rightarrow> pdict \<Rightarrow> 'r cache \<Rightarrow> (error + 'r) \<times> 'r cache" where
  "cache_call keys body ps c =
     (let ky = map ps keys in
      case map_of c ky of
        Some r \<Rightarrow> (Inr r, c)
      | None \<Rightarrow> (case body ps of
                   Inl e \<Rightarrow> (Inl e, c)
                 | Inr r \<Rightarrow> (Inr r, c @ [(ky, r)])))"

text \<open>\<open>_set_cache_parameters\<close>: the three name lists, collected over the signal
  collections.\<close>

definition set_cache_parameters ::
  "('arr, 'g) optimal_statistic \<Rightarrow> ('arr, 'g) optimal_statistic" where
  "set_cache_parameters self =
     fold (\<lambda>sc s. s\<lparr>white_params := white_params s @ sc_white_params sc,
                    basis_params := basis_params s @ sc_basis_params sc,
                    delay_params := delay_params s @ sc_delay_params sc\<rparr>)
          (signalcollections (pta self))
          (self\<lparr>white_params := [], basis_params := [], delay_params := []\<rparr>)"

text \<open>The bodies of \<open>get_FNr\<close>, \<open>get_FNF\<close>, \<open>get_FNT\<close>: a loop over
  \<open>enumerate(self.pta._signalcollections)\<close>, appending one product per pulsar.\<close>

fun FNr_loop ::
  "'arr list \<Rightarrow> pdict \<Rightarrow> (nat \<times> 'arr signalcollection) list \<Rightarrow> 'arr list \<Rightarrow> error + 'arr list" where
  "FNr_loop Fs ps [] FNrs = Inr FNrs"
| "FNr_loop Fs ps ((ct, sc) # rest) FNrs =
     ethen (get_ndiag sc ps) (\<lambda>N.
     ethen (nth_py Fs ct) (\<lambda>F.
     ethen (get_detres sc ps) (\<lambda>res.
     ethen (N res F) (\<lambda>x. FNr_loop Fs ps rest (FNrs @ [x])))))"

fun FNF_loop ::
  "'arr list \<Rightarrow> pdict \<Rightarrow> (nat \<times> 'arr signalcollection) list \<Rightarrow> 'arr list \<Rightarrow> error + 'arr list" where
  "FNF_loop Fs ps [] FNFs = Inr FNFs"
| "FNF_loop Fs ps ((ct, sc) # rest) FNFs =
     ethen (get_ndiag sc ps) (\<lambda>N.
     ethen (nth_py Fs ct) (\<lambda>F.
     ethen (N F F) (\<lambda>x. FNF_loop Fs ps rest (FNFs @ [x]))))"

fun FNT_loop ::
  "'arr list \<Rightarrow> pdict \<Rightarrow> (nat \<times> 'arr signalcollection) list \<Rightarrow> 'arr list \<Rightarrow> error + 'arr list" where
  "FNT_loop Fs ps [] FNTs = Inr FNTs"
| "FNT_loop Fs ps ((ct, sc) # rest) FNTs =
     ethen (get_ndiag sc ps) (\<lambda>N.
     ethen (nth_py Fs ct) (\<lambda>F.
     ethen (get_basis sc ps) (\<lambda>T.
     ethen (N T F) (\<lambda>x. FNT_loop Fs ps rest (FNTs @ [x])))))"

definition FNr_body :: "('arr, 'g) optimal_statistic \<Rightarrow> pdict \<Rightarrow> error + 'arr list" where
  "FNr_body self ps = FNr_loop (Fmats self) ps (enumerate 0 (signalcollections (pta self))) []"

definition FNF_body :: "('arr, 'g) optimal_statistic \<Rightarrow> pdict \<Rightarrow> error + 'arr list" where
  "FNF_body self ps = FNF_loop (Fmats self) ps (enumerate 0 (signalcollections (pta self))) []"

definition FNT_body :: "('arr, 'g) optimal_statistic \<Rightarrow> pdict \<Rightarrow> error + 'arr list" where
  "FNT_body self ps = FNT_loop (Fmats self) ps (enumerate 0 (signalcollections (pta self))) []"

text \<open>The five accessors. \<open>get_TNr\<close> and \<open>get_TNT\<close> pass the call on to the model;
  the other three are decorated with \<open>cache_call\<close> and their lists of attributes.\<close>

definition get_TNr :: "('arr, 'g) optimal_statistic \<Rightarrow> pdict \<Rightarrow> error + 'arr list" where
  "get_TNr self ps = pta_get_TNr (pta self) ps"

definition get_TNT :: "('arr, 'g) optimal_statistic \<Rightarrow> pdict \<Rightarrow> error + 'arr list" where
  "get_TNT self ps = pta_get_TNT (pta self) ps"

definition get_FNr ::
  "('arr, 'g) optimal_statistic \<Rightarrow> pdict \<Rightarrow> ('arr, 'g) os_state
     \<Rightarrow> (error + 'arr list) \<times> ('arr, 'g) os_state" where
  "get_FNr self ps st =
     (case cache_call (white_params self @ delay_params self) (FNr_body self) ps (cache_FNr st) of
        (r, c) \<Rightarrow> (r, st\<lparr>cache_FNr := c\<rparr>))"

definition get_FNF ::
  "('arr, 'g) optimal_statistic \<Rightarrow> pdict \<Rightarrow> ('arr, 'g) os_state
     \<Rightarrow> (error + 'arr list) \<times> ('arr, 'g) os_state" where
  "get_FNF self ps st =
     (case cache_call (white_params self) (FNF_body self) ps (cache_FNF st) of
        (r, c) \<Rightarrow> (r, st\<lparr>cache_FNF := c\<rparr>))"

definition get_FNT ::
  "('arr, 'g) optimal_statistic \<Rightarrow> pdict \<Rightarrow> ('arr, 'g) os_state
     \<Rightarrow> (error + 'arr list) \<times> ('arr, 'g) os_state" where
  "get_FNT self ps st =
     (case cache_call (white_params self @ basis_params self) (FNT_body self) ps (cache_FNT st) of
        (r, c) \<Rightarrow> (r, st\<lparr>cache_FNT := c\<rparr>))"

subsection \<open>The per-pulsar solve\<close>

text \<open>
  Lines 121 to 128 of \<open>compute_os\<close>. The first component of the result lists the
  library solvers that were invoked, in order; it only serves to state the order of
  the attempts and \<open>compute_os\<close> drops it.
\<close>

datatype solver_call = ChoFactor | ChoSolve | DenseSolve

definition make_Sigma :: "('arr, 'g) lib \<Rightarrow> 'arr \<Rightarrow> 'arr \<Rightarrow> error + 'arr" where
  "make_Sigma np TNT phiinv =
     (if ndim np phiinv = 1 then ethen (np_diag np phiinv) (\<lambda>D. np_add np TNT D)
      else np_add np TNT phiinv)"

definition cholesky_attempt ::
  "('arr, 'g) lib \<Rightarrow> 'arr \<Rightarrow> 'arr \<Rightarrow> 'arr \<Rightarrow> solver_call list \<times> (error + 'arr \<times> 'arr)" where
  "cholesky_attempt np Sg TNr FNTt =
     (case cho_factor np Sg of
        Inl e \<Rightarrow> ([ChoFactor], Inl e)
      | Inr cf \<Rightarrow>
         (case cho_solve np cf TNr of
            Inl e \<Rightarrow> ([ChoFactor, ChoSolve], Inl e)
          | Inr SigmaTNr \<Rightarrow>
             (case cho_solve np cf FNTt of
                Inl e \<Rightarrow> ([ChoFactor, ChoSolve, ChoSolve], Inl e)
              | Inr SigmaTNF \<Rightarrow> ([ChoFactor, ChoSolve, ChoSolve], Inr (SigmaTNr, SigmaTNF)))))"

definition dense_attempt ::
  "('arr, 'g) lib \<Rightarrow> 'arr \<Rightarrow> 'arr \<Rightarrow> 'arr \<Rightarrow> solver_call list \<times> (error + 'arr \<times> 'arr)" where
  "dense_attempt np Sg TNr FNTt =
     (case np_solve np Sg TNr of
        Inl e \<Rightarrow> ([DenseSolve], Inl e)
      | Inr SigmaTNr \<Rightarrow>
         (case np_solve np Sg FNTt of
            Inl e \<Rightarrow> ([DenseSolve, DenseSolve], Inl e)
          | Inr SigmaTNF \<Rightarrow> ([DenseSolve, DenseSolve], Inr (SigmaTNr, SigmaTNF))))"

text \<open>\<open>try: ... except np.linalg.LinAlgError: ...\<close>\<close>

definition solve_Sigma ::
  "('arr, 'g) lib \<Rightarrow> 'arr \<Rightarrow> 'arr \<Rightarrow> 'arr \<Rightarrow> solver_call list \<times> (error + 'arr \<times> 'arr)" where
  "solve_Sigma np Sg TNr FNTt =
     (case cholesky_attempt np Sg TNr FNTt of
        (tr, Inr r) \<Rightarrow> (tr, Inr r)
      | (tr, Inl e) \<Rightarrow>
          (if e = LinAlgError
           then (case dense_attempt np Sg TNr FNTt of (tr', r) \<Rightarrow> (tr @ tr', r))
           else (tr, Inl e)))"

text \<open>The loop of lines 118 to 132 over \<open>zip(TNrs, TNTs, FNrs, FNFs, FNTs, phiinvs)\<close>.\<close>

fun XZ_loop ::
  "('arr, 'g) lib \<Rightarrow> ('arr \<times> 'arr \<times> 'arr \<times> 'arr \<times> 'arr \<times> 'arr) list
     \<Rightarrow> 'arr list \<times> 'arr list \<Rightarrow> error + 'arr list \<times> 'arr list" where
  "XZ_loop np [] (X, Z) = Inr (X, Z)"
| "XZ_loop np ((TNr, TNT, FNr, FNF, FNT, phiinv) # rest) (X, Z) =
     ethen (make_Sigma np TNT phiinv) (\<lambda>Sg.
     ethen (snd (solve_Sigma np Sg TNr (np_T np FNT))) (\<lambda>(SigmaTNr, SigmaTNF).
     ethen (np_dot np FNT SigmaTNr) (\<lambda>FNTSigmaTNr.
     ethen (np_sub np FNr FNTSigmaTNr) (\<lambda>x.
     ethen (np_dot np FNT SigmaTNF) (\<lambda>d.
     ethen (np_sub np FNF d) (\<lambda>z.
       XZ_loop np rest (X @ [x], Z @ [z])))))))"

definition zip6 ::
  "'a list \<Rightarrow> 'a list \<Rightarrow> 'a list \<Rightarrow> 'a list \<Rightarrow> 'a list \<Rightarrow> 'a list
     \<Rightarrow> ('a \<times> 'a \<times> 'a \<times> 'a \<times> 'a \<times> 'a) list" where
  "zip6 a b c d e f = zip a (zip b (zip c (zip d (zip e f))))"

subsection \<open>The loop over the pulsar pairs\<close>

text \<open>Lines 138 to 144: the spectral shape of the pair.\<close>

definition phiIJ_of ::
  "('arr, 'g) optimal_statistic \<Rightarrow> ('arr, 'g) lib \<Rightarrow> pdict \<Rightarrow> error + 'arr" where
  "phiIJ_of self np ps =
     (if gamma_common self = None \<and> ps ''gw_gamma'' \<noteq> None
      then powerlaw np (freqs self) 0 (ps ''gw_gamma'')
      else powerlaw np (freqs self) 0 (gamma_common self))"

text \<open>Line 146: \<open>np.dot(X[ii], phiIJ * X[jj])\<close>.\<close>

definition pair_top :: "('arr, 'g) lib \<Rightarrow> 'arr \<Rightarrow> 'arr list \<Rightarrow> nat \<Rightarrow> nat \<Rightarrow> error + real" where
  "pair_top np phiIJ X ii jj =
     ethen (nth_py X ii) (\<lambda>Xi.
     ethen (nth_py X jj) (\<lambda>Xj.
     ethen (np_mul np phiIJ Xj) (\<lambda>pX.
       np_dot1 np Xi pX)))"

text \<open>Line 147: \<open>np.trace(np.dot(Z[ii]*phiIJ[None,:], Z[jj]*phiIJ[None,:]))\<close>.\<close>

definition pair_bot :: "('arr, 'g) lib \<Rightarrow> 'arr \<Rightarrow> 'arr list \<Rightarrow> nat \<Rightarrow> nat \<Rightarrow> error + real" where
  "pair_bot np phiIJ Z ii jj =
     ethen (nth_py Z ii) (\<lambda>Zi.
     ethen (np_row np phiIJ) (\<lambda>r1.
     ethen (np_mul np Zi r1) (\<lambda>A.
     ethen (nth_py Z jj) (\<lambda>Zj.
     ethen (np_row np phiIJ) (\<lambda>r2.
     ethen (np_mul np Zj r2) (\<lambda>B.
     ethen (np_dot np A B) (\<lambda>AB.
       np_trace np AB)))))))"

text \<open>Line 154: \<open>self.orf(self.psrlocs[ii], self.psrlocs[jj])\<close>.\<close>

definition pair_orf :: "('arr, 'g) optimal_statistic \<Rightarrow> nat \<Rightarrow> nat \<Rightarrow> error + real" where
  "pair_orf self ii jj =
     ethen (nth_py (psrlocs self) ii) (\<lambda>p_i.
     ethen (nth_py (psrlocs self) jj) (\<lambda>p_j.
       orf self p_i p_j))"

text \<open>Line 157: \<open>np.arccos(np.dot(self.psrlocs[ii], self.psrlocs[jj]))\<close>.\<close>

definition pair_xi ::
  "('arr, 'g) optimal_statistic \<Rightarrow> ('arr, 'g) lib \<Rightarrow> nat \<Rightarrow> nat \<Rightarrow> error + real" where
  "pair_xi self np ii jj =
     ethen (nth_py (psrlocs self) ii) (\<lambda>p_i.
     ethen (nth_py (psrlocs self) jj) (\<lambda>p_j.
     ethen (np_dot1 np p_i p_j) (\<lambda>c.
       Inr (arccos c))))"

text \<open>Lines 138 to 157: the four values that one pass of the inner loop appends, in
  the order \<open>rho\<close>, \<open>sig\<close>, \<open>ORF\<close>, \<open>xi\<close>.\<close>

definition pair_entry ::
  "('arr, 'g) optimal_statistic \<Rightarrow> ('arr, 'g) lib \<Rightarrow> pdict \<Rightarrow> 'arr list \<Rightarrow> 'arr list
     \<Rightarrow> nat \<Rightarrow> nat \<Rightarrow> error + real \<times> real \<times> real \<times> real" where
  "pair_entry self np ps X Z ii jj =
     ethen (phiIJ_of self np ps) (\<lambda>phiIJ.
     ethen (pair_top np phiIJ X ii jj) (\<lambda>top.
     ethen (pair_bot np phiIJ Z ii jj) (\<lambda>bot.
     ethen (pair_orf self ii jj) (\<lambda>g.
     ethen (pair_xi self np ii jj) (\<lambda>x.
       Inr (top / bot, 1 / sqrt bot, g, x))))))"

text \<open>The \<open>print\<close> of line 139, which happens first in the body of the inner loop.\<close>

definition print_gamma ::
  "('arr, 'g) optimal_statistic \<Rightarrow> pdict \<Rightarrow> ('arr, 'g) os_state \<Rightarrow> ('arr, 'g) os_state" where
  "print_gamma self ps st =
     (case ps ''gw_gamma'' of
        Some v \<Rightarrow> (if gamma_common self = None then st\<lparr>stdout := stdout st @ [v]\<rparr> else st)
      | None \<Rightarrow> st)"

type_synonym pair_lists = "real list \<times> real list \<times> real list \<times> real list"

fun inner_loop ::
  "('arr, 'g) optimal_statistic \<Rightarrow> ('arr, 'g) lib \<Rightarrow> pdict \<Rightarrow> 'arr list \<Rightarrow> 'arr list
     \<Rightarrow> nat \<Rightarrow> nat list \<Rightarrow> pair_lists \<Rightarrow> ('arr, 'g) os_state
     \<Rightarrow> (error + pair_lists) \<times> ('arr, 'g) os_state" where
  "inner_loop self np ps X Z ii [] acc st = (Inr acc, st)"
| "inner_loop self np ps X Z ii (jj # jjs) (rho, sig, ORF, xi) st =
     (case pair_entry self np ps X Z ii jj of
        Inl e \<Rightarrow> (Inl e, print_gamma self ps st)
      | Inr (r, s, g, x) \<Rightarrow>
          inner_loop self np ps X Z ii jjs (rho @ [r], sig @ [s], ORF @ [g], xi @ [x])
            (print_gamma self ps st))"

fun outer_loop ::
  "('arr, 'g) optimal_statistic \<Rightarrow> ('arr, 'g) lib \<Rightarrow> pdict \<Rightarrow> 'arr list \<Rightarrow> 'arr list
     \<Rightarrow> nat \<Rightarrow> nat list \<Rightarrow> pair_lists \<Rightarrow> ('arr, 'g) os_state
     \<Rightarrow> (error + pair_lists) \<times> ('arr, 'g) os_state" where
  "outer_loop self np ps X Z npsr [] acc st = (Inr acc, st)"
| "outer_loop self np ps X Z npsr (ii # iis) acc st =
     (case inner_loop self np ps X Z ii [ii + 1 ..< npsr] acc st of
        (Inl e, st') \<Rightarrow> (Inl e, st')
      | (Inr acc', st') \<Rightarrow> outer_loop self np ps X Z npsr iis acc' st')"

subsection \<open>\<open>compute_os\<close>\<close>

definition missing_msg :: "string \<Rightarrow> string" where
  "missing_msg p = p @ '' is not included '' @ ''in the parameter dictionary. ''
                     @ ''Drawing a random value.''"

text \<open>The dictionary comprehension of lines 96 and 97.\<close>

fun sample_all :: "(string \<times> ('g \<Rightarrow> real \<times> 'g)) list \<Rightarrow> pdict \<Rightarrow> 'g \<Rightarrow> pdict \<times> 'g" where
  "sample_all [] d g = (d, g)"
| "sample_all ((name, par) # rest) d g =
     (case par g of (v, g') \<Rightarrow> sample_all rest (d(name \<mapsto> v)) g')"

text \<open>Lines 95 to 107: the dictionary the rest of the method works with.\<close>

definition resolve_params ::
  "('arr, 'g) optimal_statistic \<Rightarrow> pdict option \<Rightarrow> ('arr, 'g) os_state
     \<Rightarrow> pdict \<times> ('arr, 'g) os_state" where
  "resolve_params self popt st =
     (case popt of
        None \<Rightarrow>
          (case sample_all (zip (param_names (pta self)) (params (pta self))) Map.empty (rng st) of
             (d, g) \<Rightarrow> (d, st\<lparr>rng := g\<rparr>))
      | Some ps \<Rightarrow>
          (ps, fold (\<lambda>p s. if ps p = None then s\<lparr>warnings := warnings s @ [missing_msg p]\<rparr> else s)
                 (param_names (pta self)) st))"

text \<open>Lines 159 to 164, on the four lists of equal length.\<close>

definition np_sum :: "real list \<Rightarrow> real" where
  "np_sum xs = foldl (+) 0 xs"

definition aggregate :: "real list \<Rightarrow> real list \<Rightarrow> real list \<Rightarrow> real \<times> real" where
  "aggregate rho sig ORF =
     (np_sum (map2 (/) (map2 (*) rho ORF) (map (\<lambda>s. s ^ 2) sig))
        / np_sum (map2 (/) (map (\<lambda>g. g ^ 2) ORF) (map (\<lambda>s. s ^ 2) sig)),
      1 / sqrt (np_sum (map2 (/) (map (\<lambda>g. g ^ 2) ORF) (map (\<lambda>s. s ^ 2) sig))))"

type_synonym os_result = "real list \<times> real list \<times> real list \<times> real \<times> real"

text \<open>Lines 109 to 166: the computation on the resolved dictionary.\<close>

definition os_of_params ::
  "('arr, 'g) optimal_statistic \<Rightarrow> ('arr, 'g) lib \<Rightarrow> pdict \<Rightarrow> ('arr, 'g) os_state
     \<Rightarrow> (error + os_result) \<times> ('arr, 'g) os_state" where
  "os_of_params self np ps =
     andthen (call (get_TNr self ps)) (\<lambda>TNrs.
     andthen (call (get_TNT self ps)) (\<lambda>TNTs.
     andthen (get_FNr self ps) (\<lambda>FNrs.
     andthen (get_FNF self ps) (\<lambda>FNFs.
     andthen (get_FNT self ps) (\<lambda>FNTs.
     andthen (call (get_phiinv (pta self) ps)) (\<lambda>phiinvs.
     andthen (call (XZ_loop np (zip6 TNrs TNTs FNrs FNFs FNTs phiinvs) ([], []))) (\<lambda>(X, Z).
     andthen (outer_loop self np ps X Z (length (signalcollections (pta self)))
                [0 ..< length (signalcollections (pta self))] ([], [], [], []))
       (\<lambda>(rho, sig, ORF, xi).
          call (Inr (xi, rho, sig, fst (aggregate rho sig ORF), snd (aggregate rho sig ORF))))
     )))))))"

definition compute_os ::
  "('arr, 'g) optimal_statistic \<Rightarrow> ('arr, 'g) lib \<Rightarrow> pdict option \<Rightarrow> ('arr, 'g) os_state
     \<Rightarrow> (error + os_result) \<times> ('arr, 'g) os_state" where
  "compute_os self np popt st =
     (case resolve_params self popt st of (ps, st') \<Rightarrow> os_of_params self np ps st')"

subsection \<open>The marginalization driver\<close>

text \<open>
  An MCMC chain is a two-dimensional array: \<open>chain.shape = (nrows, ncols)\<close> and
  \<open>entry i j\<close> is \<open>chain[i, j]\<close> for \<open>i < nrows\<close> and \<open>j < ncols\<close>.
\<close>

record chain =
  nrows :: nat
  ncols :: nat
  entry :: "nat \<Rightarrow> nat \<Rightarrow> real"

text \<open>\<open>chain[idx, :-4]\<close>: the row without its last four columns.\<close>

definition chain_params :: "chain \<Rightarrow> nat \<Rightarrow> error + real list" where
  "chain_params c idx =
     (if idx < nrows c then Inr (map (entry c idx) [0 ..< ncols c - 4]) else Inl IndexError)"

text \<open>\<open>chain[:, -4]\<close>: the fourth column from the end.\<close>

definition chain_loglike :: "chain \<Rightarrow> error + real list" where
  "chain_loglike c =
     (if 4 \<le> ncols c then Inr (map (\<lambda>i. entry c i (ncols c - 4)) [0 ..< nrows c])
      else Inl IndexError)"

text \<open>\<open>np.argmax\<close> on a one-dimensional array: the first index of the maximum; an
  empty array raises \<open>ValueError\<close>.\<close>

fun argmax_loop :: "real list \<Rightarrow> nat \<Rightarrow> nat \<Rightarrow> real \<Rightarrow> nat" where
  "argmax_loop [] i best bv = best"
| "argmax_loop (x # xs) i best bv =
     (if bv < x then argmax_loop xs (i + 1) i x else argmax_loop xs (i + 1) best bv)"

definition np_argmax :: "real list \<Rightarrow> error + nat" where
  "np_argmax xs = (case xs of [] \<Rightarrow> Inl ValueError | x # rest \<Rightarrow> Inr (argmax_loop rest 1 0 x))"

definition shape_msg :: string where
  "shape_msg = ''MCMC chain does not have the same number of parameters '' @ ''as the model.''"

text \<open>The check that opens both modes: \<open>chain.shape[1] - 4 != len(self.pta.param_names)\<close>,
  on Python integers.\<close>

definition shape_check ::
  "('arr, 'g) optimal_statistic \<Rightarrow> chain \<Rightarrow> ('arr, 'g) os_state \<Rightarrow> ('arr, 'g) os_state" where
  "shape_check self c st =
     (if int (ncols c) - 4 \<noteq> int (length (param_names (pta self)))
      then st\<lparr>warnings := warnings st @ [shape_msg]\<rparr> else st)"

text \<open>Lines 195 to 198: the dictionary of one draw of the noise-marginalized mode.
  Without a name list the dictionary of the previous draw is updated in place.\<close>

definition marg_setpars ::
  "('arr, 'g) optimal_statistic \<Rightarrow> string list option \<Rightarrow> pdict \<Rightarrow> real list \<Rightarrow> error + pdict" where
  "marg_setpars self names setpars vals =
     (case names of
        None \<Rightarrow> ethen (map_params (pta self) vals) (\<lambda>m. Inr (setpars ++ m))
      | Some ns \<Rightarrow> Inr (dict_zip ns vals))"

text \<open>Lines 230 to 233: the dictionary of the noise-maximized mode.\<close>

definition max_setpars ::
  "('arr, 'g) optimal_statistic \<Rightarrow> string list option \<Rightarrow> real list \<Rightarrow> error + pdict" where
  "max_setpars self names vals =
     (case names of
        None \<Rightarrow> map_params (pta self) vals
      | Some ns \<Rightarrow> Inr (dict_zip ns vals))"

text \<open>The loop of lines 189 to 199 over \<open>range(N)\<close>; \<open>opt\<close> and \<open>sig\<close> are the arrays
  made by \<open>np.zeros(N)\<close>, written at index \<open>ii\<close>.\<close>

fun marg_loop ::
  "('arr, 'g) optimal_statistic \<Rightarrow> ('arr, 'g) lib \<Rightarrow> chain \<Rightarrow> string list option \<Rightarrow> nat list
     \<Rightarrow> real list \<times> real list \<times> pdict \<Rightarrow> ('arr, 'g) os_state
     \<Rightarrow> (error + real list \<times> real list \<times> pdict) \<times> ('arr, 'g) os_state" where
  "marg_loop self np c names [] acc st = (Inr acc, st)"
| "marg_loop self np c names (ii # iis) (opt, sig, setpars) st =
     (case np_randint np (nrows c) (rng st) of
        (Inl e, g) \<Rightarrow> (Inl e, st\<lparr>rng := g\<rparr>)
      | (Inr idx, g) \<Rightarrow>
         (case ethen (chain_params c idx) (marg_setpars self names setpars) of
            Inl e \<Rightarrow> (Inl e, st\<lparr>rng := g\<rparr>)
          | Inr setpars' \<Rightarrow>
             (case compute_os self np (Some setpars') (st\<lparr>rng := g\<rparr>) of
                (Inl e, st') \<Rightarrow> (Inl e, st')
              | (Inr (xi, rho, sg, OS, OS_sig), st') \<Rightarrow>
                  marg_loop self np c names iis
                    (opt[ii := OS], sig[ii := OS_sig], setpars') st')))"

definition compute_noise_marginalized_os ::
  "('arr, 'g) optimal_statistic \<Rightarrow> ('arr, 'g) lib \<Rightarrow> chain \<Rightarrow> string list option \<Rightarrow> nat
     \<Rightarrow> ('arr, 'g) os_state \<Rightarrow> (error + real list \<times> real list) \<times> ('arr, 'g) os_state" where
  "compute_noise_marginalized_os self np c names N st =
     (case marg_loop self np c names [0 ..< N] (replicate N 0, replicate N 0, Map.empty)
             (shape_check self c st) of
        (Inl e, st') \<Rightarrow> (Inl e, st')
      | (Inr (opt, sig, setpars), st') \<Rightarrow> (Inr (opt, map2 (/) opt sig), st'))"

definition compute_noise_maximized_os ::
  "('arr, 'g) optimal_statistic \<Rightarrow> ('arr, 'g) lib \<Rightarrow> chain \<Rightarrow> string list option
     \<Rightarrow> ('arr, 'g) os_state \<Rightarrow> (error + os_result) \<times> ('arr, 'g) os_state" where
  "compute_noise_maximized_os self np c names st =
     (andthen (call (ethen (chain_loglike c) np_argmax)) (\<lambda>idx.
      andthen (call (ethen (chain_params c idx) (max_setpars self names))) (\<lambda>setpars.
      andthen (compute_os self np (Some setpars)) (\<lambda>(xi, rho, sig, Opt, Sig).
        call (Inr (xi, rho, sig, Opt, Opt / Sig)))))) (shape_check self c st)"

subsection \<open>Reference notions of the specification\<close>

text \<open>Appending the values of a list of pairs to the four lists of the pair loop.\<close>

definition app4 :: "pair_lists \<Rightarrow> (real \<times> real \<times> real \<times> real) list \<Rightarrow> pair_lists" where
  "app4 acc rs = (case acc of (rho, sig, ORF, xi) \<Rightarrow>
     (rho @ map fst rs, sig @ map (fst \<circ> snd) rs, ORF @ map (fst \<circ> snd \<circ> snd) rs,
      xi @ map (snd \<circ> snd \<circ> snd) rs))"

text \<open>The enumeration of the unordered pairs of \<open>P\<close> pulsars as the specification
  words it: \<open>i < j\<close>, with \<open>i\<close> ascending as the outer index.\<close>

definition pair_enum :: "nat \<Rightarrow> (nat \<times> nat) list" where
  "pair_enum P = concat (map (\<lambda>i. map (\<lambda>j. (i, j)) [i + 1 ..< P]) [0 ..< P])"



subsection \<open>A small instance\<close>

text \<open>
  An instance on which the definitions can be evaluated: one frequency and one basis
  column, so that every array has a single entry and is represented by that entry
  (the Cholesky factor of \<open>a\<close> by \<open>a\<close> itself). The generator state is a counter.
\<close>

definition toy_lib :: "(real, nat) lib" where
  "toy_lib = \<lparr>
     ndim = (\<lambda>a. 1),
     np_diag = (\<lambda>a. Inr a),
     np_add = (\<lambda>a b. Inr (a + b)),
     np_sub = (\<lambda>a b. Inr (a - b)),
     np_mul = (\<lambda>a b. Inr (a * b)),
     np_dot = (\<lambda>a b. Inr (a * b)),
     np_dot1 = (\<lambda>a b. Inr (a * b)),
     np_trace = (\<lambda>a. Inr a),
     np_T = (\<lambda>a. a),
     np_row = (\<lambda>a. Inr a),
     cho_factor = (\<lambda>a. if 0 < a then Inr (a, False) else Inl LinAlgError),
     cho_solve = (\<lambda>cf b. Inr (b / fst cf)),
     np_solve = (\<lambda>a b. if a = 0 then Inl LinAlgError else Inr (b / a)),
     powerlaw = (\<lambda>f a g. case g of None \<Rightarrow> Inl TypeError | Some x \<Rightarrow> Inr f),
     np_randint = (\<lambda>high g. if high = 0 then (Inl ValueError, g) else (Inr (g mod high), g + 1))
   \<rparr>"

definition toy_sc :: "real signalcollection" where
  "toy_sc = \<lparr>
     sc_white_params = [''efac''],
     sc_basis_params = [],
     sc_delay_params = [],
     get_ndiag = (\<lambda>ps. Inr (\<lambda>other F. Inr (F * other))),
     get_detres = (\<lambda>ps. Inr 2),
     get_basis = (\<lambda>ps. Inr 1)
   \<rparr>"

text \<open>A model of \<open>P\<close> pulsars with the two parameters \<open>efac\<close> and \<open>gw_log10_A\<close>.\<close>

definition toy_pta :: "nat \<Rightarrow> (real, nat) pta" where
  "toy_pta P = \<lparr>
     param_names = [''efac'', ''gw_log10_A''],
     params = [(\<lambda>g. (real g, g + 1)), (\<lambda>g. (real g, g + 1))],
     signalcollections = replicate P toy_sc,
     pta_get_TNr = (\<lambda>ps. Inr (replicate P 2)),
     pta_get_TNT = (\<lambda>ps. Inr (replicate P 1)),
     get_phiinv = (\<lambda>ps. Inr (replicate P 1)),
     map_params = (\<lambda>vals. Inr (dict_zip [''efac'', ''gw_log10_A''] vals))
   \<rparr>"

definition toy_os :: "nat \<Rightarrow> (real, nat) optimal_statistic" where
  "toy_os P = \<lparr>
     pta = toy_pta P,
     gamma_common = Some (13 / 3),
     freqs = 1,
     Fmats = replicate P 2,
     white_params = [''efac''],
     basis_params = [],
     delay_params = [],
     psrlocs = replicate P 1,
     orf = (\<lambda>a b. Inr (1 / 2))
   \<rparr>"

definition toy_state :: "(real, nat) os_state" where
  "toy_state = \<lparr>rng = 0, warnings = [], stdout = [],
                 cache_FNr = [], cache_FNF = [], cache_FNT = []\<rparr>"

text \<open>A chain of three rows and six columns: two parameter columns and the four
  auxiliary ones; the second row has the largest value in column \<open>-4\<close>.\<close>

definition toy_chain :: chain where
  "toy_chain = \<lparr>nrows = 3, ncols = 6,
                 entry = (\<lambda>i j. if j = 2 then (if i = 1 then 5 else 0) else real (10 * i + j))\<rparr>"

definition toy_params :: pdict where
  "toy_params = [''efac'' \<mapsto> 1, ''gw_log10_A'' \<mapsto> - 15]"

section \<open>Properties\<close>

subsection \<open>Sequencing\<close>

lemma ethen_simps [simp]: "ethen (Inl e) f = Inl e" "ethen (Inr a) f = f a"
  by (simp_all add: ethen_def)

lemma ethen_Inr_iff: "ethen r f = Inr b \<longleftrightarrow> (\<exists>a. r = Inr a \<and> f a = Inr b)"
  by (cases r) simp_all

lemma andthen_Inr_iff:
  "andthen m f s = (Inr r, s') \<longleftrightarrow> (\<exists>a s1. m s = (Inr a, s1) \<and> f a s1 = (Inr r, s'))"
  by (auto simp: andthen_def split: prod.splits sum.splits)

lemma call_Inr_iff: "call r s = (Inr a, s') \<longleftrightarrow> r = Inr a \<and> s' = s"
  by (auto simp: call_def)

subsection \<open>The pair loop appends the entries of the enumerated pairs\<close>

lemma app4_Nil [simp]: "app4 acc [] = acc"
  by (simp add: app4_def split: prod.splits)

lemma app4_app4: "app4 (app4 acc rs) rs' = app4 acc (rs @ rs')"
  by (simp add: app4_def split: prod.splits)

lemma inner_loop_Inr:
  "inner_loop self np ps X Z ii jjs acc st = (Inr acc', st') \<Longrightarrow>
     \<exists>rs. map (pair_entry self np ps X Z ii) jjs = map Inr rs \<and> acc' = app4 acc rs"
proof (induction jjs arbitrary: acc st)
  case Nil
  then show ?case by simp
next
  case (Cons jj jjs)
  obtain rho sig ORF xi where acc: "acc = (rho, sig, ORF, xi)" by (cases acc) auto
  from Cons.prems obtain r s g x where
    pe: "pair_entry self np ps X Z ii jj = Inr (r, s, g, x)" and
    rest: "inner_loop self np ps X Z ii jjs (rho @ [r], sig @ [s], ORF @ [g], xi @ [x])
             (print_gamma self ps st) = (Inr acc', st')"
    by (auto simp: acc split: sum.splits)
  from Cons.IH[OF rest] obtain rs where
    rs: "map (pair_entry self np ps X Z ii) jjs = map Inr rs"
        "acc' = app4 (rho @ [r], sig @ [s], ORF @ [g], xi @ [x]) rs" by blast
  have "acc' = app4 acc ((r, s, g, x) # rs)"
    using rs(2) by (simp add: acc app4_def)
  with pe rs(1) show ?case
    by (intro exI[of _ "(r, s, g, x) # rs"]) simp
qed

lemma outer_loop_Inr:
  "outer_loop self np ps X Z P iis acc st = (Inr acc', st') \<Longrightarrow>
     \<exists>rs. map (\<lambda>(i, j). pair_entry self np ps X Z i j)
              (concat (map (\<lambda>i. map (\<lambda>j. (i, j)) [i + 1 ..< P]) iis)) = map Inr rs
          \<and> acc' = app4 acc rs"
proof (induction iis arbitrary: acc st)
  case Nil
  then show ?case by simp
next
  case (Cons ii iis)
  from Cons.prems obtain acc1 st1 where
    inner: "inner_loop self np ps X Z ii [ii + 1 ..< P] acc st = (Inr acc1, st1)" and
    rest: "outer_loop self np ps X Z P iis acc1 st1 = (Inr acc', st')"
    by (auto split: prod.splits sum.splits)
  from inner_loop_Inr[OF inner] obtain rs1 where
    rs1: "map (pair_entry self np ps X Z ii) [ii + 1 ..< P] = map Inr rs1" "acc1 = app4 acc rs1"
    by blast
  from Cons.IH[OF rest] obtain rs2 where
    rs2: "map (\<lambda>(i, j). pair_entry self np ps X Z i j)
              (concat (map (\<lambda>i. map (\<lambda>j. (i, j)) [i + 1 ..< P]) iis)) = map Inr rs2"
         "acc' = app4 acc1 rs2" by blast
  have "map (\<lambda>(i, j). pair_entry self np ps X Z i j) (map (\<lambda>j. (ii, j)) [ii + 1 ..< P])
          = map Inr rs1"
    using rs1(1) by (simp add: comp_def)
  with rs2 rs1(2) show ?case
    by (intro exI[of _ "rs1 @ rs2"]) (simp add: app4_app4)
qed

lemma os_of_params_Inr:
  assumes "os_of_params self np ps st = (Inr (xi, rho, sig, OS, OS_sig), st')"
  shows "\<exists>X Z rs. map (\<lambda>(i, j). pair_entry self np ps X Z i j)
                    (pair_enum (length (signalcollections (pta self)))) = map Inr rs
           \<and> rho = map fst rs \<and> sig = map (fst \<circ> snd) rs \<and> xi = map (snd \<circ> snd \<circ> snd) rs
           \<and> OS = fst (aggregate rho sig (map (fst \<circ> snd \<circ> snd) rs))
           \<and> OS_sig = snd (aggregate rho sig (map (fst \<circ> snd \<circ> snd) rs))"
proof -
  let ?P = "length (signalcollections (pta self))"
  from assms obtain X Z s1 rho' sig' ORF' xi' where
    loop: "outer_loop self np ps X Z ?P [0 ..< ?P] ([], [], [], []) s1
             = (Inr (rho', sig', ORF', xi'), st')" and
    fin: "xi = xi'" "rho = rho'" "sig = sig'" "OS = fst (aggregate rho' sig' ORF')"
         "OS_sig = snd (aggregate rho' sig' ORF')"
    unfolding os_of_params_def
    by (auto simp: andthen_Inr_iff call_Inr_iff split: prod.splits)
  from outer_loop_Inr[OF loop] obtain rs where
    rs: "map (\<lambda>(i, j). pair_entry self np ps X Z i j) (pair_enum ?P) = map Inr rs"
        "(rho', sig', ORF', xi') = app4 ([], [], [], []) rs"
    unfolding pair_enum_def by blast
  from rs(2) have "rho' = map fst rs" "sig' = map (fst \<circ> snd) rs"
    "ORF' = map (fst \<circ> snd \<circ> snd) rs" "xi' = map (snd \<circ> snd \<circ> snd) rs"
    by (simp_all add: app4_def)
  with rs(1) fin show ?thesis by blast
qed

lemma compute_os_Inr:
  assumes "compute_os self np popt st = (Inr res, st')"
  shows "\<exists>ps st1. resolve_params self popt st = (ps, st1)
           \<and> os_of_params self np ps st1 = (Inr res, st')"
  using assms by (auto simp: compute_os_def split: prod.splits)

subsection \<open>The enumeration of the pairs\<close>

lemma length_pair_rows:
  "length (concat (map (\<lambda>i. map (\<lambda>j. (i, j)) [i + 1 ..< P]) [0 ..< n])) = (\<Sum>i<n. P - Suc i)"
  by (induction n) (simp_all add: length_concat)

lemma sum_descending: "(\<Sum>i<P. P - Suc i) = P * (P - 1) div 2"
proof -
  have "(\<Sum>i<P. P - Suc i) = (\<Sum>i<P. i)"
    by (rule sum.nat_diff_reindex)
  also have "\<dots> = P * (P - 1) div 2"
  proof -
    have "2 * (\<Sum>i<P. i) = P * (P - 1)"
      by (induction P) (auto simp: algebra_simps)
    then show ?thesis by simp
  qed
  finally show ?thesis .
qed

lemma length_pair_enum: "length (pair_enum P) = P * (P - 1) div 2"
  unfolding pair_enum_def using length_pair_rows[of P P] sum_descending[of P] by simp





subsection \<open>Sums\<close>

lemma np_sum_eq: "np_sum xs = (\<Sum>k<length xs. xs ! k)"
proof -
  have "foldl (+) a xs = a + sum_list xs" for a :: real
    by (induction xs arbitrary: a) (simp_all add: algebra_simps)
  then show ?thesis
    by (simp add: np_sum_def sum_list_sum_nth atLeast0LessThan)
qed

lemma map_Inr_nth:
  "map f xs = map Inr rs \<Longrightarrow> k < length xs \<Longrightarrow> f (xs ! k) = Inr (rs ! k)"
  by (metis length_map nth_map)

subsection \<open>The small instance, evaluated\<close>

lemma toy_print_gamma: "print_gamma (toy_os P) ps st = st"
  by (simp add: print_gamma_def toy_os_def split: option.splits)

lemma toy_pair_entry:
  "i < P \<Longrightarrow> j < P \<Longrightarrow>
     pair_entry (toy_os P) toy_lib ps (replicate P 2) (replicate P 2) i j = Inr (1, 1 / 2, 1 / 2, 0)"
  by (simp add: pair_entry_def phiIJ_of_def pair_top_def pair_bot_def pair_orf_def pair_xi_def
        toy_lib_def toy_os_def nth_py_def)

lemma toy_inner_loop:
  "ii < P \<Longrightarrow> \<forall>j \<in> set jjs. j < P \<Longrightarrow>
     inner_loop (toy_os P) toy_lib ps (replicate P 2) (replicate P 2) ii jjs acc st
       = (Inr (app4 acc (replicate (length jjs) (1, 1 / 2, 1 / 2, 0))), st)"
proof (induction jjs arbitrary: acc)
  case Nil
  then show ?case by simp
next
  case (Cons jj jjs)
  obtain rho sig ORF xi where acc: "acc = (rho, sig, ORF, xi)" by (cases acc) auto
  have "app4 (rho @ [1], sig @ [1 / 2], ORF @ [1 / 2], xi @ [0]) rs
          = app4 acc ((1, 1 / 2, 1 / 2, 0) # rs)" for rs
    by (simp add: acc app4_def)
  with Cons show ?case
    by (simp add: acc toy_pair_entry toy_print_gamma)
qed

lemma toy_outer_loop:
  "\<forall>i \<in> set iis. i < P \<Longrightarrow>
     outer_loop (toy_os P) toy_lib ps (replicate P 2) (replicate P 2) P iis acc st
       = (Inr (app4 acc (replicate (length (concat (map (\<lambda>i. map (\<lambda>j. (i, j)) [i + 1 ..< P]) iis)))
                           (1, 1 / 2, 1 / 2, 0))), st)"
proof (induction iis arbitrary: acc)
  case Nil
  then show ?case by simp
next
  case (Cons ii iis)
  then show ?case
    by (simp add: toy_inner_loop app4_app4 replicate_add [symmetric] del: upt_Suc)
qed

lemma toy_XZ:
  "XZ_loop toy_lib (replicate n (2, 1, 4, 4, 2, 1)) (X, Z) = Inr (X @ replicate n 2, Z @ replicate n 2)"
  by (induction n arbitrary: X Z)
     (simp_all add: toy_lib_def make_Sigma_def solve_Sigma_def cholesky_attempt_def
        replicate_app_Cons_same)

lemma zip_replicate_same: "zip (replicate n a) (replicate n b) = replicate n (a, b)"
  by (induction n) simp_all

lemma toy_FNr_loop:
  "k + n \<le> P \<Longrightarrow> FNr_loop (replicate P 2) ps (enumerate k (replicate n toy_sc)) acc
     = Inr (acc @ replicate n 4)"
  by (induction n arbitrary: k acc) (simp_all add: toy_sc_def nth_py_def replicate_app_Cons_same)

lemma toy_FNF_loop:
  "k + n \<le> P \<Longrightarrow> FNF_loop (replicate P 2) ps (enumerate k (replicate n toy_sc)) acc
     = Inr (acc @ replicate n 4)"
  by (induction n arbitrary: k acc) (simp_all add: toy_sc_def nth_py_def replicate_app_Cons_same)

lemma toy_FNT_loop:
  "k + n \<le> P \<Longrightarrow> FNT_loop (replicate P 2) ps (enumerate k (replicate n toy_sc)) acc
     = Inr (acc @ replicate n 2)"
  by (induction n arbitrary: k acc) (simp_all add: toy_sc_def nth_py_def replicate_app_Cons_same)

lemma toy_bodies:
  "FNr_body (toy_os P) ps = Inr (replicate P 4)"
  "FNF_body (toy_os P) ps = Inr (replicate P 4)"
  "FNT_body (toy_os P) ps = Inr (replicate P 2)"
  using toy_FNr_loop[of 0 P P ps "[]"] toy_FNF_loop[of 0 P P ps "[]"] toy_FNT_loop[of 0 P P ps "[]"]
  by (simp_all add: FNr_body_def FNF_body_def FNT_body_def toy_os_def toy_pta_def)

lemma toy_fields:
  "white_params (toy_os P) = [''efac'']" "basis_params (toy_os P) = []"
  "delay_params (toy_os P) = []" "pta (toy_os P) = toy_pta P"
  "signalcollections (toy_pta P) = replicate P toy_sc"
  "param_names (toy_pta P) = [''efac'', ''gw_log10_A'']"
  "pta_get_TNr (toy_pta P) = (\<lambda>ps. Inr (replicate P 2))"
  "pta_get_TNT (toy_pta P) = (\<lambda>ps. Inr (replicate P 1))"
  "get_phiinv (toy_pta P) = (\<lambda>ps. Inr (replicate P 1))"
  by (simp_all add: toy_os_def toy_pta_def)

lemma toy_os_of_params:
  assumes "map_of (cache_FNr st) [ps ''efac''] = None" "map_of (cache_FNF st) [ps ''efac''] = None"
    "map_of (cache_FNT st) [ps ''efac''] = None"
  shows "os_of_params (toy_os P) toy_lib ps st
     = (Inr (replicate (P * (P - 1) div 2) 0, replicate (P * (P - 1) div 2) 1,
             replicate (P * (P - 1) div 2) (1 / 2),
             fst (aggregate (replicate (P * (P - 1) div 2) 1) (replicate (P * (P - 1) div 2) (1 / 2))
                    (replicate (P * (P - 1) div 2) (1 / 2))),
             snd (aggregate (replicate (P * (P - 1) div 2) 1) (replicate (P * (P - 1) div 2) (1 / 2))
                    (replicate (P * (P - 1) div 2) (1 / 2)))),
        st\<lparr>cache_FNr := cache_FNr st @ [([ps ''efac''], replicate P 4)],
           cache_FNF := cache_FNF st @ [([ps ''efac''], replicate P 4)],
           cache_FNT := cache_FNT st @ [([ps ''efac''], replicate P 2)]\<rparr>)"
proof -
  have len: "length (concat (map (\<lambda>i. map (Pair i) [Suc i ..< P]) [0 ..< P]))
               = P * (P - Suc 0) div 2"
    using length_pair_enum[of P] by (simp add: pair_enum_def)
  show ?thesis
    using assms toy_XZ[of P "[]" "[]"]
    by (simp add: os_of_params_def andthen_def call_def get_TNr_def get_TNT_def get_FNr_def
        get_FNF_def get_FNT_def cache_call_def toy_bodies toy_fields zip6_def zip_replicate_same
        toy_outer_loop len app4_def del: upt_Suc)
qed

lemma toy_resolve_params: "resolve_params (toy_os P) (Some toy_params) st = (toy_params, st)"
  by (simp add: resolve_params_def toy_fields toy_params_def)

lemma toy_compute_os:
  "compute_os (toy_os P) toy_lib (Some toy_params) toy_state
     = (Inr (replicate (P * (P - 1) div 2) 0, replicate (P * (P - 1) div 2) 1,
             replicate (P * (P - 1) div 2) (1 / 2),
             fst (aggregate (replicate (P * (P - 1) div 2) 1) (replicate (P * (P - 1) div 2) (1 / 2))
                    (replicate (P * (P - 1) div 2) (1 / 2))),
             snd (aggregate (replicate (P * (P - 1) div 2) 1) (replicate (P * (P - 1) div 2) (1 / 2))
                    (replicate (P * (P - 1) div 2) (1 / 2)))),
        toy_state\<lparr>cache_FNr := [([Some 1], replicate P 4)],
           cache_FNF := [([Some 1], replicate P 4)],
           cache_FNT := [([Some 1], replicate P 2)]\<rparr>)"
  using toy_os_of_params[of toy_state toy_params P]
  by (simp add: compute_os_def toy_resolve_params) (simp add: toy_state_def toy_params_def)

subsection \<open>The aggregate\<close>

lemma pair_entry_orf:
  "pair_entry self np ps X Z ii jj = Inr (r, s, g, x) \<Longrightarrow> pair_orf self ii jj = Inr g"
  by (auto simp: pair_entry_def ethen_Inr_iff)

lemma aggregate_sums:
  assumes "length rho = n" "length sig = n" "length ORF = n"
  shows "aggregate rho sig ORF =
           ((\<Sum>k<n. rho ! k * ORF ! k / (sig ! k) ^ 2) / (\<Sum>k<n. (ORF ! k) ^ 2 / (sig ! k) ^ 2),
            1 / sqrt (\<Sum>k<n. (ORF ! k) ^ 2 / (sig ! k) ^ 2))"
  using assms by (simp add: aggregate_def np_sum_eq)

lemma compute_os_sums:
  assumes "compute_os self np popt st = (Inr (xi, rho, sig, OS, OS_sig), st')"
    and "P = length (signalcollections (pta self))"
    and "n = P * (P - 1) div 2"
  shows "\<exists>ORF. length ORF = n \<and> length rho = n \<and> length sig = n
       \<and> (\<forall>k<n. pair_orf self (fst (pair_enum P ! k)) (snd (pair_enum P ! k)) = Inr (ORF ! k))
       \<and> OS = (\<Sum>k<n. rho ! k * ORF ! k / (sig ! k) ^ 2) / (\<Sum>k<n. (ORF ! k) ^ 2 / (sig ! k) ^ 2)
       \<and> OS_sig = 1 / sqrt (\<Sum>k<n. (ORF ! k) ^ 2 / (sig ! k) ^ 2)"
proof -
  from compute_os_Inr[OF assms(1)] obtain ps st1 where
    os: "os_of_params self np ps st1 = (Inr (xi, rho, sig, OS, OS_sig), st')" by blast
  from os_of_params_Inr[OF os] obtain X Z rs where
    rs: "map (\<lambda>(i, j). pair_entry self np ps X Z i j) (pair_enum P) = map Inr rs"
      "rho = map fst rs" "sig = map (fst \<circ> snd) rs"
    and agg: "OS = fst (aggregate rho sig (map (fst \<circ> snd \<circ> snd) rs))"
      "OS_sig = snd (aggregate rho sig (map (fst \<circ> snd \<circ> snd) rs))"
    unfolding assms(2) by blast
  define ORF where "ORF = map (fst \<circ> snd \<circ> snd) rs"
  have len: "length rs = n"
    using rs(1) length_pair_enum[of P] assms(3) by (metis length_map)
  then have lens: "length ORF = n" "length rho = n" "length sig = n"
    by (simp_all add: ORF_def rs(2,3))
  have orf: "pair_orf self (fst (pair_enum P ! k)) (snd (pair_enum P ! k)) = Inr (ORF ! k)"
    if "k < n" for k
  proof -
    have "k < length (pair_enum P)" using that assms(3) by (simp add: length_pair_enum)
    from map_Inr_nth[OF rs(1) this]
    have "pair_entry self np ps X Z (fst (pair_enum P ! k)) (snd (pair_enum P ! k)) = Inr (rs ! k)"
      by (simp add: case_prod_beta)
    moreover obtain r s g x where e: "rs ! k = (r, s, g, x)" by (cases "rs ! k") auto
    moreover have "ORF ! k = g" using that len e by (simp add: ORF_def)
    ultimately show ?thesis using pair_entry_orf by metis
  qed
  have "OS = (\<Sum>k<n. rho ! k * ORF ! k / (sig ! k) ^ 2) / (\<Sum>k<n. (ORF ! k) ^ 2 / (sig ! k) ^ 2)"
    "OS_sig = 1 / sqrt (\<Sum>k<n. (ORF ! k) ^ 2 / (sig ! k) ^ 2)"
    using agg aggregate_sums[OF lens(2,3,1)] by (simp_all add: ORF_def)
  with lens orf show ?thesis by blast
qed


lemma toy_aggregate_1: "aggregate [1] [1 / 2] [1 / 2] = (2, 1)"
  by (simp add: aggregate_def np_sum_def power2_eq_square)

subsection \<open>The per-pulsar solve\<close>




subsection \<open>The cache\<close>





subsection \<open>The parameter dictionary of \<open>compute_os\<close>\<close>



lemma dom_fold_upd:
  "dom (fold (\<lambda>(k, v) d. d(k \<mapsto> v)) kvs d) = dom d \<union> fst ` set kvs"
  by (induction kvs arbitrary: d) (auto split: prod.splits)

lemma dom_dict_zip: "dom (dict_zip names vals) = set (take (length vals) names)"
proof -
  have "fst ` set (zip names vals) = set (take (length vals) names)"
    by (metis map_fst_zip_take set_map take_take length_take take_all_iff linear min_def)
  then show ?thesis by (simp add: dict_zip_def dom_fold_upd)
qed



lemma warn_loop:
  "fold (\<lambda>p s. if ps p = None then s\<lparr>warnings := warnings s @ [missing_msg p]\<rparr> else s) names st
     = st\<lparr>warnings := warnings st @ map missing_msg (filter (\<lambda>p. ps p = None) names)\<rparr>"
  by (induction names arbitrary: st) simp_all

lemma resolve_params_Some:
  "resolve_params self (Some ps) st
     = (ps, st\<lparr>warnings := warnings st
                 @ map missing_msg (filter (\<lambda>p. ps p = None) (param_names (pta self)))\<rparr>)"
  by (simp add: resolve_params_def warn_loop)

lemma resolve_params_complete:
  "set (param_names (pta self)) \<subseteq> dom ps \<Longrightarrow> resolve_params self (Some ps) st = (ps, st)"
proof -
  assume "set (param_names (pta self)) \<subseteq> dom ps"
  then have "filter (\<lambda>p. ps p = None) (param_names (pta self)) = []"
    by (auto simp: filter_empty_conv)
  then show ?thesis by (simp add: resolve_params_Some)
qed


subsection \<open>No step after the parameter check emits a warning\<close>








subsection \<open>Dictionaries built from a row of the chain\<close>

lemma zip_take_left: "zip (take (length ys) xs) ys = zip xs ys"
  by (induction xs ys rule: list_induct2') simp_all

lemma zip_take_right: "zip xs (take (length xs) ys) = zip xs ys"
  by (induction xs ys rule: list_induct2') simp_all

lemma dict_zip_take:
  "dict_zip (take (length vals) names) vals = dict_zip names vals"
  "dict_zip names (take (length names) vals) = dict_zip names vals"
  by (simp_all add: dict_zip_def zip_take_left zip_take_right)

lemma fold_upd_other:
  "k \<notin> fst ` set kvs \<Longrightarrow> fold (\<lambda>(k, v) d. d(k \<mapsto> v)) kvs d k = d k"
  by (induction kvs arbitrary: d) (auto split: prod.splits)

lemma fold_upd_nth:
  "distinct (map fst kvs) \<Longrightarrow> i < length kvs \<Longrightarrow>
     fold (\<lambda>(k, v) d. d(k \<mapsto> v)) kvs d (fst (kvs ! i)) = Some (snd (kvs ! i))"
proof (induction kvs arbitrary: d i)
  case Nil
  then show ?case by simp
next
  case (Cons kv kvs)
  obtain k v where kv: "kv = (k, v)" by (cases kv) auto
  show ?case
  proof (cases i)
    case 0
    have "k \<notin> fst ` set kvs" using Cons.prems(1) by (simp add: kv)
    from fold_upd_other[OF this, of "d(k \<mapsto> v)"]
    have "fold (\<lambda>(k, v) d. d(k \<mapsto> v)) kvs (d(k \<mapsto> v)) k = Some v" by simp
    then show ?thesis by (simp add: 0 kv del: fun_upd_apply)
  next
    case (Suc j)
    then show ?thesis using Cons by (simp add: kv)
  qed
qed

lemma dict_zip_nth:
  assumes "distinct names" "i < length names" "i < length vals"
  shows "dict_zip names vals (names ! i) = Some (vals ! i)"
proof -
  have "distinct (map fst (zip names vals))"
    using assms(1) by (simp add: map_fst_zip_take)
  from fold_upd_nth[OF this, of i Map.empty] assms(2,3) show ?thesis
    by (simp add: dict_zip_def)
qed

lemma chain_params_length: "chain_params c idx = Inr vals \<Longrightarrow> length vals = ncols c - 4"
  by (auto simp: chain_params_def split: if_splits)

lemma marg_setpars_take:
  "ethen (chain_params c idx) (marg_setpars self (Some (take (ncols c - 4) names)) sp)
     = ethen (chain_params c idx) (marg_setpars self (Some names) sp)"
proof (cases "chain_params c idx")
  case (Inl e)
  then show ?thesis by simp
next
  case (Inr vals)
  with chain_params_length[OF Inr] dict_zip_take(1)[of vals names] show ?thesis
    by (simp add: marg_setpars_def)
qed

lemma max_setpars_take:
  "ethen (chain_params c idx) (max_setpars self (Some (take (ncols c - 4) names)))
     = ethen (chain_params c idx) (max_setpars self (Some names))"
proof (cases "chain_params c idx")
  case (Inl e)
  then show ?thesis by simp
next
  case (Inr vals)
  with chain_params_length[OF Inr] dict_zip_take(1)[of vals names] show ?thesis
    by (simp add: max_setpars_def)
qed

lemma marg_loop_take:
  "marg_loop self np c (Some (take (ncols c - 4) names)) iis acc st
     = marg_loop self np c (Some names) iis acc st"
proof (induction iis arbitrary: acc st)
  case Nil
  then show ?case by simp
next
  case (Cons ii iis)
  obtain opt sig sp where acc: "acc = (opt, sig, sp)" by (cases acc) auto
  show ?case
    by (simp add: acc marg_setpars_take Cons split: prod.splits sum.splits)
qed

subsection \<open>The small chain, evaluated\<close>

lemma toy_chain_loglike: "chain_loglike toy_chain = Inr [0, 5, 0]"
  by (simp add: chain_loglike_def toy_chain_def numeral_3_eq_3)

lemma toy_chain_params: "chain_params toy_chain (Suc 0) = Inr [10, 11]"
  by (simp add: chain_params_def toy_chain_def numeral_2_eq_2)

lemma toy_argmax: "np_argmax [0, 5, 0] = Inr 1"
  by (simp add: np_argmax_def)

lemma toy_shape_check: "shape_check (toy_os P) toy_chain st = st"
  by (simp add: shape_check_def toy_fields toy_chain_def)

lemma toy_maximized:
  "compute_noise_maximized_os (toy_os 2) toy_lib toy_chain (Some [''efac'', ''gw_log10_A'']) toy_state
     = (Inr ([0], [1], [1 / 2], 2, 2),
        toy_state\<lparr>cache_FNr := [([Some 10], replicate 2 4)],
                  cache_FNF := [([Some 10], replicate 2 4)],
                  cache_FNT := [([Some 10], replicate 2 2)]\<rparr>)"
proof -
  have d: "dom (dict_zip [''efac'', ''gw_log10_A''] [10, 11]) = {''efac'', ''gw_log10_A''}"
    by (simp add: dom_dict_zip)
  have r: "resolve_params (toy_os 2) (Some (dict_zip [''efac'', ''gw_log10_A''] [10, 11])) toy_state
             = (dict_zip [''efac'', ''gw_log10_A''] [10, 11], toy_state)"
    by (rule resolve_params_complete) (simp add: d toy_fields)
  have c: "compute_os (toy_os 2) toy_lib (Some (dict_zip [''efac'', ''gw_log10_A''] [10, 11])) toy_state
     = (Inr ([0], [1], [1 / 2], 2, 1),
        toy_state\<lparr>cache_FNr := [([Some 10], replicate 2 4)],
                  cache_FNF := [([Some 10], replicate 2 4)],
                  cache_FNT := [([Some 10], replicate 2 2)]\<rparr>)"
    using toy_os_of_params[of toy_state "dict_zip [''efac'', ''gw_log10_A''] [10, 11]" 2]
    by (simp add: compute_os_def r toy_aggregate_1) (simp add: toy_state_def dict_zip_def)
  show ?thesis
    by (simp add: compute_noise_maximized_os_def toy_shape_check toy_chain_loglike toy_argmax
          toy_chain_params max_setpars_def andthen_def call_def c)
qed

subsection \<open>The loop of the noise-marginalized mode\<close>

lemma marg_loop_append:
  "marg_loop self np c names (xs @ ys) acc st =
     (case marg_loop self np c names xs acc st of
        (Inl e, st') \<Rightarrow> (Inl e, st')
      | (Inr acc', st') \<Rightarrow> marg_loop self np c names ys acc' st')"
proof (induction xs arbitrary: acc st)
  case Nil
  then show ?case by simp
next
  case (Cons x xs)
  obtain opt sig sp where acc: "acc = (opt, sig, sp)" by (cases acc) auto
  show ?case
    by (simp add: acc Cons split: prod.splits sum.splits)
qed

lemma marg_loop_step_Inr:
  assumes "marg_loop self np c names (ii # iis) (opt, sig, sp) st = (Inr acc', st')"
  shows "\<exists>idx g ps xi rho sg OS OS_sig st2.
           np_randint np (nrows c) (rng st) = (Inr idx, g)
         \<and> ethen (chain_params c idx) (marg_setpars self names sp) = Inr ps
         \<and> compute_os self np (Some ps) (st\<lparr>rng := g\<rparr>) = (Inr (xi, rho, sg, OS, OS_sig), st2)
         \<and> marg_loop self np c names iis (opt[ii := OS], sig[ii := OS_sig], ps) st2 = (Inr acc', st')"
  using assms by (auto split: prod.splits sum.splits)

lemma marg_loop_preserves:
  "marg_loop self np c names iis (opt, sig, sp) st = (Inr (opt', sig', sp'), st') \<Longrightarrow>
     length opt' = length opt \<and> length sig' = length sig
     \<and> (\<forall>j. j \<notin> set iis \<longrightarrow> opt' ! j = opt ! j \<and> sig' ! j = sig ! j)"
proof (induction iis arbitrary: opt sig sp st)
  case Nil
  then show ?case by simp
next
  case (Cons ii iis)
  from marg_loop_step_Inr[OF Cons.prems] obtain ps OS OS_sig st2 where
    rest: "marg_loop self np c names iis (opt[ii := OS], sig[ii := OS_sig], ps) st2
             = (Inr (opt', sig', sp'), st')" by blast
  from Cons.IH[OF rest] show ?case by auto
qed

lemma marg_loop_iteration:
  assumes run: "marg_loop self np c names [0 ..< N] (opt0, sig0, sp0) st0 = (Inr (opt, sig, sp), st')"
    and len: "length opt0 = N" "length sig0 = N"
    and k: "k < N"
  shows "\<exists>acck stk idx g ps xi rho sg st2.
           marg_loop self np c names [0 ..< k] (opt0, sig0, sp0) st0 = (Inr acck, stk)
         \<and> np_randint np (nrows c) (rng stk) = (Inr idx, g)
         \<and> ethen (chain_params c idx) (marg_setpars self names (snd (snd acck))) = Inr ps
         \<and> compute_os self np (Some ps) (stk\<lparr>rng := g\<rparr>) = (Inr (xi, rho, sg, opt ! k, sig ! k), st2)"
proof -
  have split: "[0 ..< N] = [0 ..< k] @ k # [Suc k ..< N]"
    using k by (metis le_add1 less_imp_add_positive upt_add_eq_append upt_conv_Cons plus_nat.add_0)
  from run obtain optk sigk spk stk where
    pre: "marg_loop self np c names [0 ..< k] (opt0, sig0, sp0) st0 = (Inr (optk, sigk, spk), stk)"
    and post: "marg_loop self np c names (k # [Suc k ..< N]) (optk, sigk, spk) stk
                = (Inr (opt, sig, sp), st')"
    unfolding split marg_loop_append by (auto split: prod.splits sum.splits)
  from marg_loop_preserves[OF pre] len have lenk: "length optk = N" "length sigk = N" by simp_all
  from marg_loop_step_Inr[OF post] obtain idx g ps xi rho sg OS OS_sig st2 where
    step: "np_randint np (nrows c) (rng stk) = (Inr idx, g)"
      "ethen (chain_params c idx) (marg_setpars self names spk) = Inr ps"
      "compute_os self np (Some ps) (stk\<lparr>rng := g\<rparr>) = (Inr (xi, rho, sg, OS, OS_sig), st2)"
    and rest: "marg_loop self np c names [Suc k ..< N] (optk[k := OS], sigk[k := OS_sig], ps) st2
                = (Inr (opt, sig, sp), st')"
    by blast
  from marg_loop_preserves[OF rest] have "opt ! k = (optk[k := OS]) ! k" "sig ! k = (sigk[k := OS_sig]) ! k"
    by simp_all
  then have "opt ! k = OS" "sig ! k = OS_sig"
    using lenk k by simp_all
  with pre step show ?thesis by fastforce
qed

lemma marg_loop_total:
  assumes rnd: "\<forall>g. \<exists>idx g'. np_randint np (nrows c) g = (Inr idx, g') \<and> idx < nrows c"
    and mp: "names = None \<longrightarrow> (\<forall>vals. \<exists>m. map_params (pta self) vals = Inr m)"
    and os: "\<forall>ps s. \<exists>r s'. compute_os self np (Some ps) s = (Inr r, s')"
  shows "\<exists>acc' st'. marg_loop self np c names iis acc st = (Inr acc', st')"
proof (induction iis arbitrary: acc st)
  case Nil
  show ?case by (cases acc) auto
next
  case (Cons ii iis)
  obtain opt sig sp where acc: "acc = (opt, sig, sp)" by (cases acc) auto
  from rnd obtain idx g where r: "np_randint np (nrows c) (rng st) = (Inr idx, g)" "idx < nrows c"
    by blast
  have "\<exists>ps. ethen (chain_params c idx) (marg_setpars self names sp) = Inr ps"
  proof (cases names)
    case None
    with mp obtain m where "map_params (pta self) (map (entry c idx) [0 ..< ncols c - 4]) = Inr m"
      by blast
    with None r(2) show ?thesis by (simp add: chain_params_def marg_setpars_def)
  next
    case (Some ns)
    with r(2) show ?thesis by (simp add: chain_params_def marg_setpars_def)
  qed
  then obtain ps where ps: "ethen (chain_params c idx) (marg_setpars self names sp) = Inr ps"
    by blast
  from os obtain xi rho sg OS OS_sig s2 where
    c: "compute_os self np (Some ps) (st\<lparr>rng := g\<rparr>) = (Inr (xi, rho, sg, OS, OS_sig), s2)"
    by (metis prod_cases5)
  from Cons[of "(opt[ii := OS], sig[ii := OS_sig], ps)" s2] show ?case
    by (simp add: acc r(1) ps c)
qed

lemma marginalized_Inr:
  assumes "compute_noise_marginalized_os self np c names N st = (Inr (opt, snr), st')"
  shows "\<exists>sig sp. marg_loop self np c names [0 ..< N] (replicate N 0, replicate N 0, Map.empty)
                     (shape_check self c st) = (Inr (opt, sig, sp), st')
           \<and> snr = map2 (/) opt sig \<and> length opt = N \<and> length sig = N"
proof -
  from assms obtain sig sp where
    run: "marg_loop self np c names [0 ..< N] (replicate N 0, replicate N 0, Map.empty)
            (shape_check self c st) = (Inr (opt, sig, sp), st')"
    and snr: "snr = map2 (/) opt sig"
    by (auto simp: compute_noise_marginalized_os_def split: prod.splits sum.splits)
  from marg_loop_preserves[OF run] have "length opt = N" "length sig = N" by simp_all
  with run snr show ?thesis by blast
qed

lemma marginalized_draws:
  assumes "compute_noise_marginalized_os self np c names N st = (Inr (opt, snr), st')"
  shows "length opt = N \<and> length snr = N
       \<and> (\<forall>k<N. \<exists>acck stk idx g ps xi rho sg OS_sig st2.
             marg_loop self np c names [0 ..< k] (replicate N 0, replicate N 0, Map.empty)
               (shape_check self c st) = (Inr acck, stk)
           \<and> np_randint np (nrows c) (rng stk) = (Inr idx, g)
           \<and> ethen (chain_params c idx) (marg_setpars self names (snd (snd acck))) = Inr ps
           \<and> compute_os self np (Some ps) (stk\<lparr>rng := g\<rparr>)
                = (Inr (xi, rho, sg, opt ! k, OS_sig), st2)
           \<and> snr ! k = opt ! k / OS_sig)"
proof -
  from marginalized_Inr[OF assms] obtain sig sp where
    run: "marg_loop self np c names [0 ..< N] (replicate N 0, replicate N 0, Map.empty)
            (shape_check self c st) = (Inr (opt, sig, sp), st')"
    and snr: "snr = map2 (/) opt sig" and len: "length opt = N" "length sig = N"
    by blast
  have "\<exists>acck stk idx g ps xi rho sg OS_sig st2.
             marg_loop self np c names [0 ..< k] (replicate N 0, replicate N 0, Map.empty)
               (shape_check self c st) = (Inr acck, stk)
           \<and> np_randint np (nrows c) (rng stk) = (Inr idx, g)
           \<and> ethen (chain_params c idx) (marg_setpars self names (snd (snd acck))) = Inr ps
           \<and> compute_os self np (Some ps) (stk\<lparr>rng := g\<rparr>)
                = (Inr (xi, rho, sg, opt ! k, OS_sig), st2)
           \<and> snr ! k = opt ! k / OS_sig" if k: "k < N" for k
  proof -
    have "snr ! k = opt ! k / sig ! k"
      using k len by (simp add: snr)
    with marg_loop_iteration[OF run _ _ k] show ?thesis
      by (simp del: marg_loop.simps) metis
  qed
  with len snr show ?thesis by simp
qed

lemma marginalized_zero:
  "compute_noise_marginalized_os self np c names 0 st = (Inr ([], []), shape_check self c st)"
  by (simp add: compute_noise_marginalized_os_def)

lemma marginalized_total:
  assumes "\<forall>g. \<exists>idx g'. np_randint np (nrows c) g = (Inr idx, g') \<and> idx < nrows c"
    and "names = None \<longrightarrow> (\<forall>vals. \<exists>m. map_params (pta self) vals = Inr m)"
    and "\<forall>ps s. \<exists>r s'. compute_os self np (Some ps) s = (Inr r, s')"
  shows "\<exists>opt snr st'. compute_noise_marginalized_os self np c names N st = (Inr (opt, snr), st')"
proof -
  from marg_loop_total[OF assms] obtain acc' st' where
    "marg_loop self np c names [0 ..< N] (replicate N 0, replicate N 0, Map.empty)
       (shape_check self c st) = (Inr acc', st')" by blast
  then show ?thesis
    by (cases acc') (simp add: compute_noise_marginalized_os_def)
qed

lemma maximized_Inr:
  assumes "compute_noise_maximized_os self np c names st = (Inr (xi, rho, sig, OS, SNR), st')"
  shows "\<exists>idx ps OS_sig.
           ethen (chain_loglike c) np_argmax = Inr idx
         \<and> ethen (chain_params c idx) (max_setpars self names) = Inr ps
         \<and> compute_os self np (Some ps) (shape_check self c st)
              = (Inr (xi, rho, sig, OS, OS_sig), st')
         \<and> SNR = OS / OS_sig"
  using assms unfolding compute_noise_maximized_os_def
  by (auto simp: andthen_Inr_iff call_Inr_iff split: prod.splits)

subsection \<open>The two modes on the small instance\<close>

lemma toy_compute_os_fresh:
  assumes "ps ''efac'' \<noteq> None" "ps ''gw_log10_A'' \<noteq> None"
    and "map_of (cache_FNr st) [ps ''efac''] = None" "map_of (cache_FNF st) [ps ''efac''] = None"
    and "map_of (cache_FNT st) [ps ''efac''] = None"
  shows "compute_os (toy_os 2) toy_lib (Some ps) st
     = (Inr ([0], [1], [1 / 2], 2, 1),
        st\<lparr>cache_FNr := cache_FNr st @ [([ps ''efac''], replicate 2 4)],
           cache_FNF := cache_FNF st @ [([ps ''efac''], replicate 2 4)],
           cache_FNT := cache_FNT st @ [([ps ''efac''], replicate 2 2)]\<rparr>)"
proof -
  have r: "resolve_params (toy_os 2) (Some ps) st = (ps, st)"
    by (rule resolve_params_complete) (use assms(1,2) in \<open>auto simp: toy_fields\<close>)
  show ?thesis
    using toy_os_of_params[of st ps 2] assms
    by (simp add: compute_os_def r toy_aggregate_1)
qed

lemma toy_chain_rows:
  "chain_params toy_chain 0 = Inr [0, 1]" "chain_params toy_chain (Suc 0) = Inr [10, 11]"
  by (simp_all add: chain_params_def toy_chain_def numeral_2_eq_2)

lemma toy_dicts:
  "dict_zip [''efac'', ''gw_log10_A''] [x, y] ''efac'' = Some x"
  "dict_zip [''efac'', ''gw_log10_A''] [x, y] ''gw_log10_A'' = Some y"
  by (simp_all add: dict_zip_def)

lemma toy_randint: "np_randint toy_lib (nrows toy_chain) g = (Inr (g mod 3), Suc g)"
  by (simp add: toy_lib_def toy_chain_def)

lemma toy_marginalized:
  "fst (compute_noise_marginalized_os (toy_os 2) toy_lib toy_chain
          (Some [''efac'', ''gw_log10_A'']) 2 toy_state) = Inr ([2, 2], [2, 2])"
proof -
  have up: "[0 ..< 2] = [0, Suc 0]" by (simp add: numeral_2_eq_2)
  have rep: "replicate 2 (0::real) = [0, 0]" by (simp add: numeral_2_eq_2)
  show ?thesis
    by (simp add: compute_noise_marginalized_os_def toy_shape_check up rep toy_randint
          toy_chain_rows marg_setpars_def toy_compute_os_fresh toy_dicts toy_state_def)
qed

lemma toy0_getters:
  "\<exists>r s'. get_FNr (toy_os 0) ps s = (Inr r, s')"
  "\<exists>r s'. get_FNF (toy_os 0) ps s = (Inr r, s')"
  "\<exists>r s'. get_FNT (toy_os 0) ps s = (Inr r, s')"
  by (simp_all add: get_FNr_def get_FNF_def get_FNT_def cache_call_def Let_def toy_bodies
        split: option.splits)

lemma toy0_os_of_params_total:
  "\<exists>r s'. os_of_params (toy_os 0) toy_lib ps s = (Inr r, s')"
proof -
  obtain r1 s1 where g1: "get_FNr (toy_os 0) ps s = (Inr r1, s1)"
    using toy0_getters(1) by blast
  obtain r2 s2 where g2: "get_FNF (toy_os 0) ps s1 = (Inr r2, s2)"
    using toy0_getters(2) by blast
  obtain r3 s3 where g3: "get_FNT (toy_os 0) ps s2 = (Inr r3, s3)"
    using toy0_getters(3) by blast
  show ?thesis
    by (simp add: os_of_params_def andthen_def call_def get_TNr_def get_TNT_def toy_fields
          g1 g2 g3 zip6_def)
qed

lemma toy0_compute_os_total:
  "\<exists>r s'. compute_os (toy_os 0) toy_lib (Some ps) s = (Inr r, s')"
  using toy0_os_of_params_total by (simp add: compute_os_def resolve_params_Some)

subsection \<open>Excess names do not change either mode\<close>

lemma marginalized_take:
  "compute_noise_marginalized_os self np c (Some (take (ncols c - 4) names)) N st
     = compute_noise_marginalized_os self np c (Some names) N st"
  by (simp add: compute_noise_marginalized_os_def marg_loop_take)

lemma maximized_take:
  "compute_noise_maximized_os self np c (Some (take (ncols c - 4) names)) st
     = compute_noise_maximized_os self np c (Some names) st"
  by (simp add: compute_noise_maximized_os_def max_setpars_take)

section \<open>The claims\<close>

subsection \<open>C6: one entry per unordered pair, in lexicographic order\<close>



subsection \<open>C5: the aggregate is the inverse-variance-weighted combination\<close>

text \<open>
  Claim C5. Whenever \<open>compute_os\<close> returns, there is the array \<open>ORF\<close> of the
  overlap-reduction values of the enumerated pairs, of the same length \<open>n = P(P-1)/2\<close> as
  the returned \<open>rho\<close> and \<open>sig\<close>, such that \<open>OS\<close> is the sum of \<open>rho\<cdot>ORF/sig\<^sup>2\<close>
  divided by the sum of \<open>ORF\<^sup>2/sig\<^sup>2\<close>, and \<open>OS_sig\<close> is the reciprocal of the square root
  of the latter sum; both sums range over all \<open>n\<close> pairs.
\<close>

theorem aggregate_statistic_formula:
  assumes "compute_os self np popt st = (Inr (xi, rho, sig, OS, OS_sig), st')"
    and "P = length (signalcollections (pta self))"
    and "n = P * (P - 1) div 2"
  shows "\<exists>ORF. length ORF = n \<and> length rho = n \<and> length sig = n
       \<and> (\<forall>k<n. pair_orf self (fst (pair_enum P ! k)) (snd (pair_enum P ! k)) = Inr (ORF ! k))
       \<and> OS = (\<Sum>k<n. rho ! k * ORF ! k / (sig ! k) ^ 2) / (\<Sum>k<n. (ORF ! k) ^ 2 / (sig ! k) ^ 2)
       \<and> OS_sig = 1 / sqrt (\<Sum>k<n. (ORF ! k) ^ 2 / (sig ! k) ^ 2)"
  using assms by (rule compute_os_sums)

theorem aggregate_statistic_formula_witness:
  "\<exists>xi rho sig OS OS_sig st' ORF.
     compute_os (toy_os 3) toy_lib (Some toy_params) toy_state = (Inr (xi, rho, sig, OS, OS_sig), st')
     \<and> length ORF = 3 \<and> length rho = 3 \<and> length sig = 3
     \<and> OS = (\<Sum>k<3. rho ! k * ORF ! k / (sig ! k) ^ 2) / (\<Sum>k<3. (ORF ! k) ^ 2 / (sig ! k) ^ 2)
     \<and> OS_sig = 1 / sqrt (\<Sum>k<3. (ORF ! k) ^ 2 / (sig ! k) ^ 2)"
proof -
  have P: "3 = length (signalcollections (pta (toy_os 3)))"
    by (simp add: toy_fields)
  have n: "(3::nat) = 3 * (3 - 1) div 2" by simp
  from aggregate_statistic_formula[OF toy_compute_os P n]
  show ?thesis using toy_compute_os[of 3] by blast
qed

subsection \<open>C2: a single pair\<close>




subsection \<open>C3: Cholesky first, dense solve on a singularity error only\<close>



subsection \<open>C8: the cache of \<open>get_FNF\<close> is keyed on the white-noise parameters\<close>




subsection \<open>C9: \<open>compute_os\<close> without a parameter dictionary\<close>



subsection \<open>C1: a supplied dictionary that omits a parameter\<close>

text \<open>
  Claim C1 says that for a supplied dictionary that omits a parameter name the call
  warns and goes on with a randomly drawn substitute. The check of lines 98 to 107
  does not raise and warns once per missing name (\<open>resolve_params_Some\<close>), with a
  message that ends in \<open>Drawing a random value.\<close>, but no value is drawn: on the small
  instance, with a dictionary that has \<open>efac\<close> only, the dictionary handed to the rest
  of the method still has no value for \<open>gw_log10_A\<close>, and the random generator is the
  same after the call as before it.
\<close>

theorem missing_parameter_is_not_drawn:
  "resolve_params (toy_os 2) (Some [''efac'' \<mapsto> 1]) toy_state
     = ([''efac'' \<mapsto> 1],
        toy_state\<lparr>warnings :=
          [''gw_log10_A is not included in the parameter dictionary. Drawing a random value.'']\<rparr>)
   \<and> [''efac'' \<mapsto> (1::real)] ''gw_log10_A'' = None
   \<and> compute_os (toy_os 2) toy_lib (Some [''efac'' \<mapsto> 1]) toy_state
     = os_of_params (toy_os 2) toy_lib [''efac'' \<mapsto> 1]
         (toy_state\<lparr>warnings :=
          [''gw_log10_A is not included in the parameter dictionary. Drawing a random value.'']\<rparr>)
   \<and> rng (snd (compute_os (toy_os 2) toy_lib (Some [''efac'' \<mapsto> 1]) toy_state)) = rng toy_state"
proof -
  let ?w = "[''gw_log10_A is not included in the parameter dictionary. Drawing a random value.'']"
  have res: "resolve_params (toy_os 2) (Some [''efac'' \<mapsto> 1]) toy_state
     = ([''efac'' \<mapsto> 1], toy_state\<lparr>warnings := ?w\<rparr>)"
    by (simp add: resolve_params_Some toy_fields missing_msg_def toy_state_def)
  have run: "rng (snd (os_of_params (toy_os 2) toy_lib [''efac'' \<mapsto> 1] (toy_state\<lparr>warnings := ?w\<rparr>)))
      = rng toy_state"
    using toy_os_of_params[of "toy_state\<lparr>warnings := ?w\<rparr>" "[''efac'' \<mapsto> 1]" 2]
    by (simp add: toy_state_def)
  show ?thesis
    using res run by (simp add: compute_os_def)
qed

subsection \<open>C7: the noise-marginalized mode returns \<open>N\<close> values in draw order\<close>

text \<open>
  Claim C7. With \<open>N = 0\<close> the noise-marginalized mode returns two empty arrays.
  Whenever it returns, for any \<open>N\<close>, the arrays of \<open>OS\<close> and \<open>SNR\<close> values have length
  exactly \<open>N\<close>, and entry \<open>k\<close> comes from iteration \<open>k\<close> of the loop: in the state
  reached after the first \<open>k\<close> iterations one call of \<open>np.random.randint(0, nrows)\<close>
  gives the row index, the row gives the dictionary, and \<open>compute_os\<close> on that
  dictionary gives \<open>opt[k]\<close>; nothing is sorted and no index is excluded from later
  draws. It does return whenever the random generator yields a row index of the chain
  and the calls of the model and of \<open>compute_os\<close> return. That the indices are uniform
  and independent is a property of NumPy's generator, which is a parameter here.
\<close>

theorem marginalized_returns_N_values_in_draw_order:
  "compute_noise_marginalized_os self np c names 0 st = (Inr ([], []), shape_check self c st)
   \<and> (\<forall>opt snr st'.
         compute_noise_marginalized_os self np c names N st = (Inr (opt, snr), st') \<longrightarrow>
         length opt = N \<and> length snr = N
         \<and> (\<forall>k<N. \<exists>acck stk idx g ps xi rho sg OS_sig st2.
               marg_loop self np c names [0 ..< k] (replicate N 0, replicate N 0, Map.empty)
                 (shape_check self c st) = (Inr acck, stk)
             \<and> np_randint np (nrows c) (rng stk) = (Inr idx, g)
             \<and> ethen (chain_params c idx) (marg_setpars self names (snd (snd acck))) = Inr ps
             \<and> compute_os self np (Some ps) (stk\<lparr>rng := g\<rparr>)
                  = (Inr (xi, rho, sg, opt ! k, OS_sig), st2)
             \<and> snr ! k = opt ! k / OS_sig))
   \<and> ((\<forall>g. \<exists>idx g'. np_randint np (nrows c) g = (Inr idx, g') \<and> idx < nrows c)
        \<and> (names = None \<longrightarrow> (\<forall>vals. \<exists>m. map_params (pta self) vals = Inr m))
        \<and> (\<forall>ps s. \<exists>r s'. compute_os self np (Some ps) s = (Inr r, s'))
       \<longrightarrow> (\<exists>opt snr st'.
              compute_noise_marginalized_os self np c names N st = (Inr (opt, snr), st')))"
  using marginalized_zero[of self np c names st] marginalized_draws[of self np c names N st]
    marginalized_total[of np c names self N st]
  by blast

theorem marginalized_returns_N_values_in_draw_order_witness:
  "fst (compute_noise_marginalized_os (toy_os 2) toy_lib toy_chain
          (Some [''efac'', ''gw_log10_A'']) 2 toy_state) = Inr ([2, 2], [2, 2])
   \<and> length [2::real, 2] = 2
   \<and> (\<exists>opt snr st'. compute_noise_marginalized_os (toy_os 0) toy_lib toy_chain None 5 toy_state
          = (Inr (opt, snr), st') \<and> length opt = 5 \<and> length snr = 5)"
proof -
  obtain st' where run: "compute_noise_marginalized_os (toy_os 2) toy_lib toy_chain
          (Some [''efac'', ''gw_log10_A'']) 2 toy_state = (Inr ([2, 2], [2, 2]), st')"
    using toy_marginalized by (metis prod.collapse)
  note a = marginalized_returns_N_values_in_draw_order[of "toy_os 2" toy_lib toy_chain
      "Some [''efac'', ''gw_log10_A'']" toy_state 2]
  from a run have len: "length [2::real, 2] = 2" by blast
  have rnd: "\<forall>g. \<exists>idx g'. np_randint toy_lib (nrows toy_chain) g = (Inr idx, g') \<and> idx < nrows toy_chain"
    by (simp add: toy_randint) (simp add: toy_chain_def)
  have mp: "\<forall>vals. \<exists>m. map_params (pta (toy_os 0)) vals = Inr m"
    by (simp add: toy_os_def toy_pta_def)
  note b = marginalized_returns_N_values_in_draw_order[of "toy_os 0" toy_lib toy_chain None toy_state 5]
  from b rnd mp toy0_compute_os_total obtain opt snr st2 where
    r5: "compute_noise_marginalized_os (toy_os 0) toy_lib toy_chain None 5 toy_state
          = (Inr (opt, snr), st2)" by blast
  with b have "length opt = 5" "length snr = 5" by blast+
  with r5 len toy_marginalized show ?thesis by blast
qed

subsection \<open>C4: the signal-to-noise ratio is \<open>OS / OS_sig\<close> in both modes\<close>

text \<open>
  Claim C4. Whenever the noise-marginalized mode returns, its \<open>k\<close>-th signal-to-noise
  value is \<open>opt[k] / OS_sig\<close> for a call of \<open>compute_os\<close> that returned \<open>opt[k]\<close> and
  \<open>OS_sig\<close> as its last two values. Whenever the noise-maximized mode returns
  \<open>(xi, rho, sig, OS, SNR)\<close>, its call of \<open>compute_os\<close> returned \<open>(xi, rho, sig, OS,
  OS_sig)\<close> with \<open>SNR = OS / OS_sig\<close>. The division is that of the model (\<open>real\<close>).
\<close>

theorem snr_is_os_over_os_sigma:
  "(\<forall>opt snr st'.
      compute_noise_marginalized_os self np c names N st = (Inr (opt, snr), st') \<longrightarrow>
      length snr = length opt
      \<and> (\<forall>k<N. \<exists>ps s xi rho sg OS_sig s'.
            compute_os self np (Some ps) s = (Inr (xi, rho, sg, opt ! k, OS_sig), s')
          \<and> snr ! k = opt ! k / OS_sig))
   \<and> (\<forall>xi rho sig OS SNR st'.
         compute_noise_maximized_os self np c names st = (Inr (xi, rho, sig, OS, SNR), st') \<longrightarrow>
         (\<exists>ps OS_sig.
            compute_os self np (Some ps) (shape_check self c st)
              = (Inr (xi, rho, sig, OS, OS_sig), st')
          \<and> SNR = OS / OS_sig))"
proof -
  have marg: "length snr = length opt
      \<and> (\<forall>k<N. \<exists>ps s xi rho sg OS_sig s'.
            compute_os self np (Some ps) s = (Inr (xi, rho, sg, opt ! k, OS_sig), s')
          \<and> snr ! k = opt ! k / OS_sig)"
    if "compute_noise_marginalized_os self np c names N st = (Inr (opt, snr), st')"
    for opt snr st'
    using marginalized_draws[OF that] by (simp del: marg_loop.simps) metis
  have maxi: "\<exists>ps OS_sig.
            compute_os self np (Some ps) (shape_check self c st)
              = (Inr (xi, rho, sig, OS, OS_sig), st')
          \<and> SNR = OS / OS_sig"
    if "compute_noise_maximized_os self np c names st = (Inr (xi, rho, sig, OS, SNR), st')"
    for xi rho sig OS SNR st'
    using maximized_Inr[OF that] by blast
  from marg maxi show ?thesis by blast
qed

theorem snr_is_os_over_os_sigma_witness:
  "fst (compute_noise_marginalized_os (toy_os 2) toy_lib toy_chain
          (Some [''efac'', ''gw_log10_A'']) 2 toy_state) = Inr ([2, 2], [2, 2])
   \<and> fst (compute_noise_maximized_os (toy_os 2) toy_lib toy_chain
          (Some [''efac'', ''gw_log10_A'']) toy_state) = Inr ([0], [1], [1 / 2], 2, 2)
   \<and> (\<exists>ps OS_sig s'.
         compute_os (toy_os 2) toy_lib (Some ps) (shape_check (toy_os 2) toy_chain toy_state)
           = (Inr ([0], [1], [1 / 2], 2, OS_sig), s') \<and> (2::real) = 2 / OS_sig)"
proof -
  note a = snr_is_os_over_os_sigma[of "toy_os 2" toy_lib toy_chain
      "Some [''efac'', ''gw_log10_A'']" 2 toy_state]
  from a toy_maximized have "\<exists>ps OS_sig s'.
         compute_os (toy_os 2) toy_lib (Some ps) (shape_check (toy_os 2) toy_chain toy_state)
           = (Inr ([0], [1], [1 / 2], 2, OS_sig), s') \<and> (2::real) = 2 / OS_sig"
    by blast
  with toy_marginalized toy_maximized show ?thesis by simp
qed

subsection \<open>C10: an explicit name list of the wrong length\<close>

text \<open>
  Claim C10. With an explicit \<open>param_names\<close> list, both modes build the dictionary as
  \<open>dict(zip(param_names, chain[idx, :-4]))\<close>, a total operation: names and values are
  paired up to the shorter of the two lengths, the excess names or values are dropped
  (the dictionary is the one of the truncated lists, its keys are the first
  \<open>min\<close> names, and name \<open>i\<close> maps to value \<open>i\<close> when the names are distinct), and a
  row of the chain supplies exactly \<open>ncols - 4\<close> values. So each mode behaves, in
  result and in state, as if only the first \<open>ncols - 4\<close> names had been supplied. The
  only diagnostic before the engine runs is the column-count warning, which compares
  \<open>ncols - 4\<close> with the number of parameter names of the model, not with the length
  of the supplied list.
\<close>

theorem explicit_names_are_zipped_and_truncated:
  "marg_setpars self (Some names) sp vals = Inr (dict_zip names vals)
   \<and> max_setpars self (Some names) vals = Inr (dict_zip names vals)
   \<and> dict_zip names vals = dict_zip (take (length vals) names) vals
   \<and> dict_zip names vals = dict_zip names (take (length names) vals)
   \<and> dom (dict_zip names vals) = set (take (min (length names) (length vals)) names)
   \<and> (distinct names \<longrightarrow>
        (\<forall>i. i < length names \<and> i < length vals \<longrightarrow>
           dict_zip names vals (names ! i) = Some (vals ! i)))
   \<and> (idx < nrows c \<longrightarrow> (\<exists>row. chain_params c idx = Inr row \<and> length row = ncols c - 4))
   \<and> compute_noise_marginalized_os self np c (Some names) N st
        = compute_noise_marginalized_os self np c (Some (take (ncols c - 4) names)) N st
   \<and> compute_noise_maximized_os self np c (Some names) st
        = compute_noise_maximized_os self np c (Some (take (ncols c - 4) names)) st
   \<and> warnings (shape_check self c st)
        = (if int (ncols c) - 4 \<noteq> int (length (param_names (pta self)))
           then warnings st @ [shape_msg] else warnings st)"
proof -
  have d: "dom (dict_zip names vals) = set (take (min (length names) (length vals)) names)"
    by (simp add: dom_dict_zip min_def)
  have row: "idx < nrows c \<longrightarrow> (\<exists>row. chain_params c idx = Inr row \<and> length row = ncols c - 4)"
    by (simp add: chain_params_def)
  have w: "warnings (shape_check self c st)
        = (if int (ncols c) - 4 \<noteq> int (length (param_names (pta self)))
           then warnings st @ [shape_msg] else warnings st)"
    by (simp add: shape_check_def)
  show ?thesis
    using d row w dict_zip_nth[where names = names and vals = vals]
      dict_zip_take[where names = names and vals = vals]
      marginalized_take[where self = self and np = np and c = c and names = names and N = N and st = st]
      maximized_take[where self = self and np = np and c = c and names = names and st = st]
    by (simp add: marg_setpars_def max_setpars_def)
qed

theorem explicit_names_are_zipped_and_truncated_witness:
  "distinct [''efac'', ''gw_log10_A'', ''extra'']
   \<and> dict_zip [''efac'', ''gw_log10_A'', ''extra''] [10, 11] ''gw_log10_A'' = Some 11
   \<and> dom (dict_zip [''efac'', ''gw_log10_A'', ''extra''] [10, 11]) = {''efac'', ''gw_log10_A''}
   \<and> chain_params toy_chain 1 = Inr [10, 11]
   \<and> fst (compute_noise_maximized_os (toy_os 2) toy_lib toy_chain
            (Some [''efac'', ''gw_log10_A'', ''extra'']) toy_state) = Inr ([0], [1], [1 / 2], 2, 2)
   \<and> warnings (snd (compute_noise_maximized_os (toy_os 2) toy_lib toy_chain
            (Some [''efac'', ''gw_log10_A'', ''extra'']) toy_state)) = []"
proof -
  note a = explicit_names_are_zipped_and_truncated[where self = "toy_os 2"
      and names = "[''efac'', ''gw_log10_A'', ''extra'']" and vals = "[10, 11]" and idx = 1
      and c = toy_chain and np = toy_lib and st = toy_state]
  have dist: "distinct [''efac'', ''gw_log10_A'', ''extra'']" by simp
  have "(1::nat) < length [''efac'', ''gw_log10_A'', ''extra''] \<and> (1::nat) < length [10::real, 11]"
    by simp
  with a dist have v: "dict_zip [''efac'', ''gw_log10_A'', ''extra''] [10, 11]
      ([''efac'', ''gw_log10_A'', ''extra''] ! 1) = Some ([10, 11] ! 1)"
    by blast
  from a have dm: "dom (dict_zip [''efac'', ''gw_log10_A'', ''extra''] [10, 11])
      = set (take (min (length [''efac'', ''gw_log10_A'', ''extra'']) (length [10::real, 11]))
           [''efac'', ''gw_log10_A'', ''extra''])"
    by blast
  have tk: "take (ncols toy_chain - 4) [''efac'', ''gw_log10_A'', ''extra''] = [''efac'', ''gw_log10_A'']"
    by (simp add: toy_chain_def numeral_2_eq_2)
  from a have "compute_noise_maximized_os (toy_os 2) toy_lib toy_chain
        (Some [''efac'', ''gw_log10_A'', ''extra'']) toy_state
      = compute_noise_maximized_os (toy_os 2) toy_lib toy_chain
        (Some (take (ncols toy_chain - 4) [''efac'', ''gw_log10_A'', ''extra''])) toy_state"
    by blast
  then have m: "compute_noise_maximized_os (toy_os 2) toy_lib toy_chain
        (Some [''efac'', ''gw_log10_A'', ''extra'']) toy_state
      = (Inr ([0], [1], [1 / 2], 2, 2),
        toy_state\<lparr>cache_FNr := [([Some 10], replicate 2 4)],
                  cache_FNF := [([Some 10], replicate 2 4)],
                  cache_FNT := [([Some 10], replicate 2 2)]\<rparr>)"
    by (simp only: tk toy_maximized)
  have f: "fst (compute_noise_maximized_os (toy_os 2) toy_lib toy_chain
            (Some [''efac'', ''gw_log10_A'', ''extra'']) toy_state) = Inr ([0], [1], [1 / 2], 2, 2)"
    by (simp only: m fst_conv)
  have wn: "warnings (snd (compute_noise_maximized_os (toy_os 2) toy_lib toy_chain
            (Some [''efac'', ''gw_log10_A'', ''extra'']) toy_state)) = []"
    by (simp only: m snd_conv) (simp add: toy_state_def)
  have v2: "dict_zip [''efac'', ''gw_log10_A'', ''extra''] [10, 11] ''gw_log10_A'' = Some 11"
    using v by simp
  have dm2: "dom (dict_zip [''efac'', ''gw_log10_A'', ''extra''] [10, 11]) = {''efac'', ''gw_log10_A''}"
    using dm by simp
  have cp: "chain_params toy_chain 1 = Inr [10, 11]"
    using toy_chain_params by simp
  show ?thesis
    using dist v2 dm2 cp f wn by blast
qed

end
